theory Spec2Isabelle
  imports Main
begin

section \<open>The platform: ECMAScript dates, numbers and strings\<close>

text \<open>
  A JavaScript \<open>Date\<close> holds a time value: the milliseconds since the epoch in UTC, or
  NaN for an Invalid Date. The model is \<open>int option\<close>, \<open>None\<close> for NaN.

  What the components take from the platform is gathered in a record:
  \<^item> \<open>localTZA\<close>: ECMAScript's \<open>LocalTZA(t, isUTC)\<close>, the offset of the local time
    zone in milliseconds, at the instant \<open>t\<close> when \<open>isUTC\<close> is true and for the
    local time \<open>t\<close> when it is false. It may change with \<open>t\<close>, as it does where
    clocks are set forward and back; a zone with a fixed offset \<open>z\<close> has
    \<open>localTZA = (\<lambda>t isUTC. z)\<close>;
  \<^item> \<open>toInteger\<close>: \<open>Number(s)\<close> followed by the integer conversion that \<open>setHours\<close>
    applies to its arguments, \<open>None\<close> when \<open>Number(s)\<close> is NaN or infinite;
  \<^item> \<open>dateParse\<close>: the time value of \<open>new Date(s)\<close> for a string \<open>s\<close>;
  \<^item> \<open>parseISO\<close>: the time value of date-fns' \<open>parseISO(s)\<close>;
  \<^item> \<open>toLowerCase\<close>: \<open>String.prototype.toLowerCase\<close>.
\<close>

type_synonym jsdate = "int option"

record platform =
  localTZA :: "int \<Rightarrow> bool \<Rightarrow> int"
  toInteger :: "string \<Rightarrow> int option"
  dateParse :: "string \<Rightarrow> jsdate"
  parseISO :: "string \<Rightarrow> jsdate"
  toLowerCase :: "string \<Rightarrow> string"

definition msPerDay :: int where
  "msPerDay = 86400000"

definition msPerHour :: int where
  "msPerHour = 3600000"

definition msPerMinute :: int where
  "msPerMinute = 60000"

definition LocalTime :: "platform \<Rightarrow> int \<Rightarrow> int" where
  "LocalTime P t = t + localTZA P t True"

definition UTC_of :: "platform \<Rightarrow> int \<Rightarrow> int" where
  "UTC_of P t = t - localTZA P t False"

definition Day :: "int \<Rightarrow> int" where
  "Day t = t div msPerDay"

definition TimeWithinDay :: "int \<Rightarrow> int" where
  "TimeWithinDay t = t mod msPerDay"

text \<open>Day 0 (1970-01-01) is a Thursday; 0 = Sunday ... 6 = Saturday.\<close>

definition WeekDay :: "int \<Rightarrow> int" where
  "WeekDay t = (Day t + 4) mod 7"

definition HourFromTime :: "int \<Rightarrow> int" where
  "HourFromTime t = (t div msPerHour) mod 24"

definition MinFromTime :: "int \<Rightarrow> int" where
  "MinFromTime t = (t div msPerMinute) mod 60"

definition MakeTime :: "int \<Rightarrow> int \<Rightarrow> int \<Rightarrow> int \<Rightarrow> int" where
  "MakeTime h m s ms = h * msPerHour + m * msPerMinute + s * 1000 + ms"

definition MakeDate :: "int \<Rightarrow> int \<Rightarrow> int" where
  "MakeDate day time = day * msPerDay + time"

definition TimeClip :: "int \<Rightarrow> jsdate" where
  "TimeClip t = (if \<bar>t\<bar> \<le> 8640000000000000 then Some t else None)"

text \<open>\<open>date.getDay()\<close>: NaN on an Invalid Date.\<close>

definition getDay :: "platform \<Rightarrow> jsdate \<Rightarrow> int option" where
  "getDay P date = map_option (\<lambda>t. WeekDay (LocalTime P t)) date"

definition getHours :: "platform \<Rightarrow> int \<Rightarrow> int" where
  "getHours P t = HourFromTime (LocalTime P t)"

definition getMinutes :: "platform \<Rightarrow> int \<Rightarrow> int" where
  "getMinutes P t = MinFromTime (LocalTime P t)"

text \<open>
  \<open>date.setDate(date.getDate() + d)\<close>: the day of the month plus \<open>d\<close>, normalised by
  \<open>MakeDay\<close>, is the local day number plus \<open>d\<close>; the local time within the day is
  kept. The local time so made is read with the offset in force at that local time, so
  that two dates a day apart may be 23 or 25 hours apart.
\<close>

definition setDate_plus :: "platform \<Rightarrow> jsdate \<Rightarrow> int \<Rightarrow> jsdate" where
  "setDate_plus P date d =
     (case date of
        None \<Rightarrow> None
      | Some t \<Rightarrow>
          TimeClip (UTC_of P (MakeDate (Day (LocalTime P t) + d) (TimeWithinDay (LocalTime P t)))))"

text \<open>\<open>date.setHours(hours, minutes, 0, 0)\<close>; a NaN argument makes the date invalid.\<close>

definition setHours :: "platform \<Rightarrow> int option \<Rightarrow> int option \<Rightarrow> jsdate \<Rightarrow> jsdate" where
  "setHours P hours minutes date =
     (case date of
        None \<Rightarrow> None
      | Some t \<Rightarrow>
          (case hours of
             None \<Rightarrow> None
           | Some h \<Rightarrow>
               (case minutes of
                  None \<Rightarrow> None
                | Some m \<Rightarrow>
                    TimeClip (UTC_of P (MakeDate (Day (LocalTime P t)) (MakeTime h m 0 0))))))"

text \<open>
  \<open>date.toDateString()\<close> prints the local calendar day ("Mon Jun 03 2024"), and
  "Invalid Date" for an Invalid Date. The components only compare these strings, so the
  model is the local day number, \<open>None\<close> for "Invalid Date".
\<close>

definition toDateString :: "platform \<Rightarrow> jsdate \<Rightarrow> int option" where
  "toDateString P date = map_option (\<lambda>t. Day (LocalTime P t)) date"

text \<open>\<open>s.split(c)\<close> for a one-character separator: the empty string gives one empty part.\<close>

fun split :: "char \<Rightarrow> string \<Rightarrow> string list" where
  "split c [] = [[]]"
| "split c (x # xs) =
     (if x = c then [] # split c xs
      else (case split c xs of
              [] \<Rightarrow> [[x]]
            | p # ps \<Rightarrow> (x # p) # ps))"

text \<open>A JavaScript string is truthy when it is neither null/undefined nor empty.\<close>

definition truthy :: "string option \<Rightarrow> bool" where
  "truthy s = (case s of None \<Rightarrow> False | Some v \<Rightarrow> v \<noteq> [])"

section \<open>EventCalendar: projecting a recurrence over four weeks\<close>

text \<open>
  \<open>const frontendDay = dayOfWeek === 6 ? 0 : dayOfWeek + 1\<close>, written out in
  \<open>projectRecurringDates\<close> (EventCalendar) and twice in \<open>getEventsForDay\<close>
  (RealTimeCalendar).
\<close>

definition frontendDay :: "int \<Rightarrow> int" where
  "frontendDay dayOfWeek = (if dayOfWeek = 6 then 0 else dayOfWeek + 1)"

text \<open>The test of the recurrence rule on one day; \<open>dow\<close> is NaN on an Invalid Date.\<close>

definition shouldAdd :: "string option \<Rightarrow> int option \<Rightarrow> int option \<Rightarrow> bool" where
  "shouldAdd recurrenceType dayOfWeek dow =
     (if recurrenceType = Some ''DAILY'' then True
      else if recurrenceType = Some ''WEEKDAYS'' then
        (case dow of None \<Rightarrow> False | Some w \<Rightarrow> 1 \<le> w \<and> w \<le> 5)
      else if recurrenceType = Some ''WEEKENDS'' then
        (case dow of None \<Rightarrow> False | Some w \<Rightarrow> w = 0 \<or> w = 6)
      else if recurrenceType = Some ''SPECIFIC_DAY'' \<and> dayOfWeek \<noteq> None then
        (case dayOfWeek of
           None \<Rightarrow> False
         | Some k \<Rightarrow> (case dow of None \<Rightarrow> False | Some w \<Rightarrow> w = frontendDay k))
      else False)"

text \<open>
  The time of day of an occurrence: the block guarded by \<open>if (scheduledTime)\<close>. A short
  string with a colon gives hours and minutes from its first two parts; anything else is
  parsed as a date, and left alone when that fails. Nothing in the block throws.
\<close>

definition nth_part :: "string list \<Rightarrow> nat \<Rightarrow> string option" where
  "nth_part parts i = (if i < length parts then Some (parts ! i) else None)"

definition Number_part :: "platform \<Rightarrow> string option \<Rightarrow> int option" where
  "Number_part P part = (case part of None \<Rightarrow> None | Some s \<Rightarrow> toInteger P s)"

definition applyScheduledTime :: "platform \<Rightarrow> string option \<Rightarrow> jsdate \<Rightarrow> jsdate" where
  "applyScheduledTime P scheduledTime date =
     (case scheduledTime of
        None \<Rightarrow> date
      | Some s \<Rightarrow>
          if s = [] then date
          else if CHR '':'' \<in> set s \<and> length s \<le> 8 then
            (let parts = split CHR '':'' s;
                 hours = Number_part P (nth_part parts 0);
                 minutes = Number_part P (nth_part parts 1)
             in setHours P hours minutes date)
          else
            (case dateParse P s of
               None \<Rightarrow> date
             | Some time \<Rightarrow> setHours P (Some (getHours P time)) (Some (getMinutes P time)) date))"

text \<open>One pass of the loop body, for the day offset \<open>d\<close>: the dates it pushes.\<close>

definition projectDay :: "platform \<Rightarrow> int \<Rightarrow> string option \<Rightarrow> int option \<Rightarrow> string option \<Rightarrow> nat \<Rightarrow> jsdate list" where
  "projectDay P now recurrenceType dayOfWeek scheduledTime d =
     (let date = setDate_plus P (Some now) (int d);
          dow = getDay P date
      in if shouldAdd recurrenceType dayOfWeek dow
         then [applyScheduledTime P scheduledTime date]
         else [])"

text \<open>
  \<open>projectRecurringDates\<close>; \<open>now\<close> is the value of the \<open>new Date()\<close> that the
  function reads when it starts.
\<close>

definition projectRecurringDates :: "platform \<Rightarrow> int \<Rightarrow> string option \<Rightarrow> int option \<Rightarrow> string option \<Rightarrow> jsdate list" where
  "projectRecurringDates P now recurrenceType dayOfWeek scheduledTime =
     concat (map (projectDay P now recurrenceType dayOfWeek scheduledTime) [0..<28])"

section \<open>EventCalendar: the calendar items\<close>

text \<open>The fields of \<open>Show\<close> and \<open>Event\<close> that the calendars read.\<close>

record Show =
  s_id :: int
  s_slug :: string
  s_title :: string
  s_thumbnail :: "string option"
  s_scheduled_time :: "string option"
  s_day_of_week :: "int option"
  s_is_recurring :: bool
  s_recurrence_type :: "string option"
  s_status :: string
  s_creator_username :: string
  s_creator_id :: int

record Event =
  e_id :: int
  e_title :: string
  e_thumbnail :: "string option"
  e_banner_image :: "string option"
  e_start_datetime :: "string option"
  e_start_date :: "string option"
  e_end_datetime :: "string option"
  e_end_date :: "string option"
  e_venue_name :: "string option"
  e_location :: "string option"
  e_is_virtual :: bool
  e_status :: string
  e_organizer_username :: string
  e_organizer_id :: int
  e_is_recurring :: bool
  e_recurrence_type :: "string option"
  e_day_of_week :: "int option"
  e_scheduled_time :: "string option"

datatype item_type = show_t | event_t

text \<open>
  The \<open>date\<close> and \<open>endDate\<close> of an item are Date objects. Where only their time
  values matter the item holds the values (\<open>jsdate CalendarItem\<close>); in the store of the
  last section it holds the addresses of the objects.
\<close>

record 'd CalendarItem =
  i_id :: int
  i_title :: string
  i_type :: item_type
  i_date :: 'd
  i_endDate :: "'d option"
  i_thumbnail :: "string option"
  i_creator :: string
  i_creatorId :: int
  i_slug :: "string option"
  i_isVirtual :: "bool option"
  i_location :: "string option"
  i_status :: "string option"

datatype ContentFilter = all_f | shows_f | events_f

text \<open>\<open>a || b\<close> on strings that may be null.\<close>

definition or_else :: "string option \<Rightarrow> string option \<Rightarrow> string option" where
  "or_else a b = (if truthy a then a else b)"

text \<open>\<open>new Date(s)\<close> of a string that may be null is only called on truthy strings.\<close>

definition newDate :: "platform \<Rightarrow> string option \<Rightarrow> jsdate" where
  "newDate P s = (case s of None \<Rightarrow> None | Some v \<Rightarrow> dateParse P v)"

definition showItem :: "Show \<Rightarrow> 'd \<Rightarrow> 'd CalendarItem" where
  "showItem show d =
     \<lparr> i_id = s_id show, i_title = s_title show, i_type = show_t, i_date = d,
       i_endDate = None, i_thumbnail = s_thumbnail show,
       i_creator = s_creator_username show, i_creatorId = s_creator_id show,
       i_slug = Some (s_slug show), i_isVirtual = None, i_location = None,
       i_status = Some (s_status show) \<rparr>"

definition eventItem :: "Event \<Rightarrow> 'd \<Rightarrow> 'd option \<Rightarrow> 'd CalendarItem" where
  "eventItem event d endD =
     \<lparr> i_id = e_id event, i_title = e_title event, i_type = event_t, i_date = d,
       i_endDate = endD, i_thumbnail = or_else (e_banner_image event) (e_thumbnail event),
       i_creator = e_organizer_username event, i_creatorId = e_organizer_id event,
       i_slug = None, i_isVirtual = Some (e_is_virtual event),
       i_location = or_else (or_else (e_venue_name event) (e_location event)) None,
       i_status = Some (e_status event) \<rparr>"

text \<open>
  The \<open>forEach\<close> over the projected dates: a date is pushed unless \<open>items.find\<close>
  already has an item of this id and type on the same \<open>toDateString()\<close>.
\<close>

definition sameEntityDay :: "platform \<Rightarrow> int \<Rightarrow> item_type \<Rightarrow> jsdate \<Rightarrow> jsdate CalendarItem \<Rightarrow> bool" where
  "sameEntityDay P idv ty d i =
     (i_id i = idv \<and> i_type i = ty \<and> toDateString P (i_date i) = toDateString P d)"

definition pushDate :: "platform \<Rightarrow> int \<Rightarrow> item_type \<Rightarrow> (jsdate \<Rightarrow> jsdate CalendarItem) \<Rightarrow> jsdate CalendarItem list \<Rightarrow> jsdate \<Rightarrow> jsdate CalendarItem list" where
  "pushDate P idv ty mk items d =
     (if find (sameEntityDay P idv ty d) items = None then items @ [mk d] else items)"

definition pushDates :: "platform \<Rightarrow> int \<Rightarrow> item_type \<Rightarrow> (jsdate \<Rightarrow> jsdate CalendarItem) \<Rightarrow> jsdate CalendarItem list \<Rightarrow> jsdate list \<Rightarrow> jsdate CalendarItem list" where
  "pushDates P idv ty mk items dates = foldl (pushDate P idv ty mk) items dates"

text \<open>
  The body of \<open>shows.forEach\<close>. The state is the \<open>items\<close> array and the clock: every
  call of \<open>projectRecurringDates\<close> reads \<open>new Date()\<close> once, the head of the
  clock's readings, and leaves the later readings to the calls after it.
\<close>

type_synonym clock = "nat \<Rightarrow> int"

definition tick :: "clock \<Rightarrow> clock" where
  "tick c = (\<lambda>n. c (Suc n))"

definition addShow :: "platform \<Rightarrow> jsdate CalendarItem list \<times> clock \<Rightarrow> Show \<Rightarrow> jsdate CalendarItem list \<times> clock" where
  "addShow P st show =
     (let items = fst st; c = snd st;
          items1 =
            (if \<not> s_is_recurring show \<and> truthy (s_scheduled_time show)
             then items @ [showItem show (newDate P (s_scheduled_time show))]
             else items)
      in if s_is_recurring show \<and> truthy (s_recurrence_type show)
         then (pushDates P (s_id show) show_t (showItem show) items1
                 (projectRecurringDates P (c 0) (s_recurrence_type show)
                    (s_day_of_week show) (s_scheduled_time show)),
               tick c)
         else (items1, c))"

text \<open>The body of \<open>events.forEach\<close>.\<close>

definition addEvent :: "platform \<Rightarrow> jsdate CalendarItem list \<times> clock \<Rightarrow> Event \<Rightarrow> jsdate CalendarItem list \<times> clock" where
  "addEvent P st event =
     (let items = fst st; c = snd st;
          startDate = or_else (e_start_datetime event) (e_start_date event);
          endDate = or_else (e_end_datetime event) (e_end_date event);
          items1 =
            (if \<not> e_is_recurring event \<and> truthy startDate
             then items @ [eventItem event (newDate P startDate)
                             (if truthy endDate then Some (newDate P endDate) else None)]
             else items)
      in if e_is_recurring event \<and> truthy (e_recurrence_type event)
         then (pushDates P (e_id event) event_t (\<lambda>d. eventItem event d None) items1
                 (projectRecurringDates P (c 0) (e_recurrence_type event)
                    (e_day_of_week event)
                    (or_else (or_else (e_scheduled_time event) (e_start_datetime event))
                       (e_start_date event))),
               tick c)
         else (items1, c))"

text \<open>
  \<open>items.sort((a, b) => a.date.getTime() - b.date.getTime())\<close>. A comparator that
  returns NaN counts as 0. The sort is stable; for a consistent comparator its result is
  the one that inserting each element before the first element not smaller than it
  gives. With an Invalid Date among the items the comparator is not consistent and
  the order that JavaScript returns is implementation-defined.
\<close>

definition compareItems :: "jsdate CalendarItem \<Rightarrow> jsdate CalendarItem \<Rightarrow> int" where
  "compareItems a b =
     (case i_date a of
        None \<Rightarrow> 0
      | Some x \<Rightarrow> (case i_date b of None \<Rightarrow> 0 | Some y \<Rightarrow> x - y))"

fun insertItem :: "jsdate CalendarItem \<Rightarrow> jsdate CalendarItem list \<Rightarrow> jsdate CalendarItem list" where
  "insertItem a [] = [a]"
| "insertItem a (b # bs) =
     (if compareItems a b \<le> 0 then a # b # bs else b # insertItem a bs)"

definition sortItems :: "jsdate CalendarItem list \<Rightarrow> jsdate CalendarItem list" where
  "sortItems items = foldr insertItem items []"

text \<open>\<open>s.includes(q)\<close>: \<open>q\<close> occurs in \<open>s\<close>.\<close>

fun startsWith :: "string \<Rightarrow> string \<Rightarrow> bool" where
  "startsWith s [] = True"
| "startsWith [] (q # qs) = False"
| "startsWith (x # xs) (q # qs) = (x = q \<and> startsWith xs qs)"

fun str_includes :: "string \<Rightarrow> string \<Rightarrow> bool" where
  "str_includes [] q = (q = [])"
| "str_includes (x # xs) q = (startsWith (x # xs) q \<or> str_includes xs q)"

definition matchesSearch :: "platform \<Rightarrow> string \<Rightarrow> 'd CalendarItem \<Rightarrow> bool" where
  "matchesSearch P searchQuery i =
     (str_includes (toLowerCase P (i_title i)) (toLowerCase P searchQuery) \<or>
      str_includes (toLowerCase P (i_creator i)) (toLowerCase P searchQuery))"

text \<open>The items collected from the shows and the events, before the search and the sort.\<close>

definition collectItems :: "platform \<Rightarrow> clock \<Rightarrow> Show list \<Rightarrow> Event list \<Rightarrow> ContentFilter \<Rightarrow> jsdate CalendarItem list \<times> clock" where
  "collectItems P c shows events filter_sel =
     (let st1 = (if filter_sel = all_f \<or> filter_sel = shows_f
                 then foldl (addShow P) ([], c) shows else ([], c))
      in if filter_sel = all_f \<or> filter_sel = events_f
         then foldl (addEvent P) st1 events else st1)"

text \<open>\<open>calendarItems\<close>: with a search query the filtered items are returned as they are.\<close>

definition calendarItems :: "platform \<Rightarrow> clock \<Rightarrow> Show list \<Rightarrow> Event list \<Rightarrow> ContentFilter \<Rightarrow> string \<Rightarrow> jsdate CalendarItem list" where
  "calendarItems P c shows events filter_sel searchQuery =
     (let items = fst (collectItems P c shows events filter_sel)
      in if searchQuery \<noteq> [] then filter (matchesSearch P searchQuery) items
         else sortItems items)"

section \<open>RealTimeCalendar: the shows and events of one day\<close>

text \<open>
  date-fns' \<open>startOfDay\<close> is \<open>setHours(0, 0, 0, 0)\<close> on a copy of the date, and
  \<open>isSameDay\<close> compares the times of the two starts with \<open>===\<close>: NaN, the time of
  an Invalid Date, is equal to nothing.
\<close>

definition startOfDay :: "platform \<Rightarrow> jsdate \<Rightarrow> jsdate" where
  "startOfDay P date = setHours P (Some 0) (Some 0) date"

definition isSameDay :: "platform \<Rightarrow> jsdate \<Rightarrow> jsdate \<Rightarrow> bool" where
  "isSameDay P a b =
     (case startOfDay P a of
        None \<Rightarrow> False
      | Some x \<Rightarrow> (case startOfDay P b of None \<Rightarrow> False | Some y \<Rightarrow> x = y))"

text \<open>The \<open>switch\<close> on the recurrence type, the same for shows and events.\<close>

definition recursOn :: "string option \<Rightarrow> int option \<Rightarrow> int \<Rightarrow> bool" where
  "recursOn recurrence_type day_of_week dayOfWeek =
     (if recurrence_type = Some ''DAILY'' then True
      else if recurrence_type = Some ''WEEKDAYS'' then 1 \<le> dayOfWeek \<and> dayOfWeek \<le> 5
      else if recurrence_type = Some ''WEEKENDS'' then dayOfWeek = 0 \<or> dayOfWeek = 6
      else if recurrence_type = Some ''SPECIFIC_DAY'' then
        (case day_of_week of None \<Rightarrow> False | Some k \<Rightarrow> dayOfWeek = frontendDay k)
      else False)"

definition showOnDay :: "platform \<Rightarrow> int \<Rightarrow> Show \<Rightarrow> bool" where
  "showOnDay P date show =
     (if \<not> s_is_recurring show then
        (case s_scheduled_time show of
           None \<Rightarrow> False
         | Some s \<Rightarrow> if s = [] then False else isSameDay P (parseISO P s) (Some date))
      else recursOn (s_recurrence_type show) (s_day_of_week show) (WeekDay (LocalTime P date)))"

definition eventOnDay :: "platform \<Rightarrow> int \<Rightarrow> Event \<Rightarrow> bool" where
  "eventOnDay P date event =
     (if \<not> e_is_recurring event then
        (case or_else (e_start_datetime event) (e_start_date event) of
           None \<Rightarrow> False
         | Some s \<Rightarrow> if s = [] then False else isSameDay P (parseISO P s) (Some date))
      else recursOn (e_recurrence_type event) (e_day_of_week event) (WeekDay (LocalTime P date)))"

definition getEventsForDay :: "platform \<Rightarrow> Show list \<Rightarrow> Event list \<Rightarrow> int \<Rightarrow> Show list \<times> Event list" where
  "getEventsForDay P shows events date =
     (filter (showOnDay P date) shows, filter (eventOnDay P date) events)"

section \<open>A platform for the examples\<close>

text \<open>
  \<open>Number\<close> on a string of decimal digits (the empty string is 0), where it agrees with
  JavaScript; the examples give it no other string.
\<close>

definition digit :: "char \<Rightarrow> int option" where
  "digit c =
     map_of [(CHR ''0'', 0), (CHR ''1'', 1), (CHR ''2'', 2), (CHR ''3'', 3), (CHR ''4'', 4),
             (CHR ''5'', 5), (CHR ''6'', 6), (CHR ''7'', 7), (CHR ''8'', 8), (CHR ''9'', 9)] c"

fun decimal_from :: "int \<Rightarrow> string \<Rightarrow> int option" where
  "decimal_from acc [] = Some acc"
| "decimal_from acc (c # cs) =
     (case digit c of None \<Rightarrow> None | Some v \<Rightarrow> decimal_from (10 * acc + v) cs)"

definition decimalNumber :: "string \<Rightarrow> int option" where
  "decimalNumber s = decimal_from 0 s"

text \<open>
  The timestamps of the examples, as \<open>new Date\<close> and \<open>parseISO\<close> read them in UTC:
  day 19905 is 2024-07-01, four weeks after Monday 2024-06-03, day 19877, and day 20030
  is 2024-11-03.
\<close>

definition exampleParse :: "string \<Rightarrow> jsdate" where
  "exampleParse s =
     (if s = ''2024-07-01T00:00:00'' then Some (19905 * 86400000)
      else if s = ''2024-06-03T18:30:00'' then Some (19877 * 86400000 + 66600000)
      else if s = ''2024-11-03T23:30:00'' then Some (20030 * 86400000 + 84600000)
      else None)"

definition P0 :: platform where
  "P0 = \<lparr> localTZA = (\<lambda>t isUTC. 0), toInteger = decimalNumber, dateParse = exampleParse,
          parseISO = exampleParse, toLowerCase = (\<lambda>s. s) \<rparr>"

text \<open>
  A zone of the examples that sets its clocks back: four hours behind UTC until
  2024-11-03 06:00 UTC (day 20030), five hours behind from then on. The local times from
  01:00 to 02:00 of that day come twice, and are read as the first of the two. The
  timestamps of the examples carry no offset, so this platform reads them as local times.
\<close>

definition autumnTZA :: "int \<Rightarrow> bool \<Rightarrow> int" where
  "autumnTZA t isUTC =
     (if isUTC then (if t < 20030 * 86400000 + 6 * 3600000 then - 4 * 3600000 else - 5 * 3600000)
      else (if t < 20030 * 86400000 + 2 * 3600000 then - 4 * 3600000 else - 5 * 3600000))"

definition P1 :: platform where
  "P1 = \<lparr> localTZA = autumnTZA, toInteger = decimalNumber,
          dateParse = (\<lambda>s. map_option (\<lambda>x. x - autumnTZA x False) (exampleParse s)),
          parseISO = (\<lambda>s. map_option (\<lambda>x. x - autumnTZA x False) (exampleParse s)),
          toLowerCase = (\<lambda>s. s) \<rparr>"

text \<open>A show of the examples: the fields the calendars do not branch on are fixed.\<close>

definition exampleShow :: "int \<Rightarrow> bool \<Rightarrow> string option \<Rightarrow> int option \<Rightarrow> string option \<Rightarrow> Show" where
  "exampleShow idv recurring rtype dow time =
     \<lparr> s_id = idv, s_slug = ''show'', s_title = ''Show'', s_thumbnail = None,
       s_scheduled_time = time, s_day_of_week = dow, s_is_recurring = recurring,
       s_recurrence_type = rtype, s_status = ''published'',
       s_creator_username = ''creator'', s_creator_id = 7 \<rparr>"

text \<open>An event of the examples, with the same fixed fields.\<close>

definition exampleEvent :: "int \<Rightarrow> bool \<Rightarrow> string option \<Rightarrow> int option \<Rightarrow> string option \<Rightarrow> string option \<Rightarrow> Event" where
  "exampleEvent idv recurring rtype dow time start =
     \<lparr> e_id = idv, e_title = ''Event'', e_thumbnail = None, e_banner_image = None,
       e_start_datetime = start, e_start_date = None, e_end_datetime = None,
       e_end_date = None, e_venue_name = None, e_location = None, e_is_virtual = False,
       e_status = ''published'', e_organizer_username = ''organizer'', e_organizer_id = 8,
       e_is_recurring = recurring, e_recurrence_type = rtype, e_day_of_week = dow,
       e_scheduled_time = time \<rparr>"

text \<open>A clock that does not advance while the items are computed: every reading is \<open>now\<close>.\<close>

definition clockAt :: "int \<Rightarrow> clock" where
  "clockAt now = (\<lambda>n. now)"

text \<open>
  A clock with the readings of the examples: the readings of the list in turn, and 0
  after them.
\<close>

definition clockOf :: "int list \<Rightarrow> clock" where
  "clockOf readings = (\<lambda>n. if n < length readings then readings ! n else 0)"

text \<open>The clock \<open>c\<close> without its reading number \<open>k\<close>, counted from 0.\<close>

definition dropReading :: "nat \<Rightarrow> clock \<Rightarrow> clock" where
  "dropReading k c = (\<lambda>n. if n < k then c n else c (Suc n))"

text \<open>The three values that \<open>items.find\<close> compares: id, type and \<open>toDateString()\<close>.\<close>

definition itemKey :: "platform \<Rightarrow> jsdate CalendarItem \<Rightarrow> int \<times> item_type \<times> int option" where
  "itemKey P i = (i_id i, i_type i, toDateString P (i_date i))"

section \<open>EventCalendar on a store of Date objects\<close>

text \<open>
  A Date object is mutable: \<open>setDate\<close> and \<open>setHours\<close> change the object they are
  called on, and two variables may hold the same object. The store keeps the Date objects
  by address, next to the two arrays of entities that the component holds as state and
  that \<open>calendarItems\<close> reads from its closure. Every function of this section is the
  function of the same name above, with each \<open>new Date(...)\<close> an allocation and each
  \<open>setDate\<close> and \<open>setHours\<close> a write to the object.
\<close>

type_synonym addr = nat

record store =
  st_shows :: "Show list"
  st_events :: "Event list"
  st_dates :: "jsdate list"

definition readDate :: "store \<Rightarrow> addr \<Rightarrow> jsdate" where
  "readDate h a = (if a < length (st_dates h) then st_dates h ! a else None)"

text \<open>\<open>new Date(v)\<close>: a new object, at the next address.\<close>

definition allocDate :: "jsdate \<Rightarrow> store \<Rightarrow> addr \<times> store" where
  "allocDate v h = (length (st_dates h), h\<lparr>st_dates := st_dates h @ [v]\<rparr>)"

definition writeDate :: "addr \<Rightarrow> jsdate \<Rightarrow> store \<Rightarrow> store" where
  "writeDate a v h = h\<lparr>st_dates := (st_dates h)[a := v]\<rparr>"

definition applyScheduledTime_h :: "platform \<Rightarrow> string option \<Rightarrow> addr \<Rightarrow> store \<Rightarrow> store" where
  "applyScheduledTime_h P scheduledTime date h =
     (case scheduledTime of
        None \<Rightarrow> h
      | Some s \<Rightarrow>
          if s = [] then h
          else if CHR '':'' \<in> set s \<and> length s \<le> 8 then
            (let parts = split CHR '':'' s;
                 hours = Number_part P (nth_part parts 0);
                 minutes = Number_part P (nth_part parts 1)
             in writeDate date (setHours P hours minutes (readDate h date)) h)
          else
            (let time = fst (allocDate (dateParse P s) h);
                 h1 = snd (allocDate (dateParse P s) h)
             in case readDate h1 time of
                  None \<Rightarrow> h1
                | Some tv \<Rightarrow>
                    writeDate date
                      (setHours P (Some (getHours P tv)) (Some (getMinutes P tv)) (readDate h1 date))
                      h1))"

text \<open>
  One pass of the loop: \<open>date\<close> is a copy of \<open>now\<close>, changed in place, and the object
  pushed is a copy of \<open>date\<close>.
\<close>

definition projectDay_h :: "platform \<Rightarrow> addr \<Rightarrow> string option \<Rightarrow> int option \<Rightarrow> string option \<Rightarrow> addr list \<times> store \<Rightarrow> nat \<Rightarrow> addr list \<times> store" where
  "projectDay_h P now recurrenceType dayOfWeek scheduledTime st d =
     (let dates = fst st; h = snd st;
          date = fst (allocDate (readDate h now) h);
          h1 = snd (allocDate (readDate h now) h);
          h2 = writeDate date (setDate_plus P (readDate h1 date) (int d)) h1;
          dow = getDay P (readDate h2 date)
      in if shouldAdd recurrenceType dayOfWeek dow
         then (let h3 = applyScheduledTime_h P scheduledTime date h2;
                   copy = fst (allocDate (readDate h3 date) h3);
                   h4 = snd (allocDate (readDate h3 date) h3)
               in (dates @ [copy], h4))
         else (dates, h2))"

definition projectRecurringDates_h :: "platform \<Rightarrow> int \<Rightarrow> string option \<Rightarrow> int option \<Rightarrow> string option \<Rightarrow> store \<Rightarrow> addr list \<times> store" where
  "projectRecurringDates_h P nowValue recurrenceType dayOfWeek scheduledTime h =
     (let now = fst (allocDate (Some nowValue) h);
          h0 = snd (allocDate (Some nowValue) h)
      in foldl (projectDay_h P now recurrenceType dayOfWeek scheduledTime) ([], h0) [0..<28])"

definition sameEntityDay_h :: "platform \<Rightarrow> store \<Rightarrow> int \<Rightarrow> item_type \<Rightarrow> addr \<Rightarrow> addr CalendarItem \<Rightarrow> bool" where
  "sameEntityDay_h P h idv ty d i =
     (i_id i = idv \<and> i_type i = ty \<and>
      toDateString P (readDate h (i_date i)) = toDateString P (readDate h d))"

definition pushDate_h :: "platform \<Rightarrow> store \<Rightarrow> int \<Rightarrow> item_type \<Rightarrow> (addr \<Rightarrow> addr CalendarItem) \<Rightarrow> addr CalendarItem list \<Rightarrow> addr \<Rightarrow> addr CalendarItem list" where
  "pushDate_h P h idv ty mk items d =
     (if find (sameEntityDay_h P h idv ty d) items = None then items @ [mk d] else items)"

definition pushDates_h :: "platform \<Rightarrow> store \<Rightarrow> int \<Rightarrow> item_type \<Rightarrow> (addr \<Rightarrow> addr CalendarItem) \<Rightarrow> addr CalendarItem list \<Rightarrow> addr list \<Rightarrow> addr CalendarItem list" where
  "pushDates_h P h idv ty mk items dates = foldl (pushDate_h P h idv ty mk) items dates"

definition addShow_h :: "platform \<Rightarrow> addr CalendarItem list \<times> clock \<times> store \<Rightarrow> Show \<Rightarrow> addr CalendarItem list \<times> clock \<times> store" where
  "addShow_h P st show =
     (let items = fst st; c = fst (snd st); h = snd (snd st);
          one_off = \<not> s_is_recurring show \<and> truthy (s_scheduled_time show);
          a = fst (allocDate (newDate P (s_scheduled_time show)) h);
          items1 = (if one_off then items @ [showItem show a] else items);
          h1 = (if one_off then snd (allocDate (newDate P (s_scheduled_time show)) h) else h)
      in if s_is_recurring show \<and> truthy (s_recurrence_type show)
         then (let r = projectRecurringDates_h P (c 0) (s_recurrence_type show)
                         (s_day_of_week show) (s_scheduled_time show) h1
               in (pushDates_h P (snd r) (s_id show) show_t (showItem show) items1 (fst r),
                   tick c, snd r))
         else (items1, c, h1))"

definition addEvent_h :: "platform \<Rightarrow> addr CalendarItem list \<times> clock \<times> store \<Rightarrow> Event \<Rightarrow> addr CalendarItem list \<times> clock \<times> store" where
  "addEvent_h P st event =
     (let items = fst st; c = fst (snd st); h = snd (snd st);
          startDate = or_else (e_start_datetime event) (e_start_date event);
          endDate = or_else (e_end_datetime event) (e_end_date event);
          one_off = \<not> e_is_recurring event \<and> truthy startDate;
          a = fst (allocDate (newDate P startDate) h);
          ha = snd (allocDate (newDate P startDate) h);
          b = fst (allocDate (newDate P endDate) ha);
          hb = snd (allocDate (newDate P endDate) ha);
          items1 =
            (if one_off
             then items @ [eventItem event a (if truthy endDate then Some b else None)]
             else items);
          h1 = (if one_off then (if truthy endDate then hb else ha) else h)
      in if e_is_recurring event \<and> truthy (e_recurrence_type event)
         then (let r = projectRecurringDates_h P (c 0) (e_recurrence_type event)
                         (e_day_of_week event)
                         (or_else (or_else (e_scheduled_time event) (e_start_datetime event))
                            (e_start_date event)) h1
               in (pushDates_h P (snd r) (e_id event) event_t (\<lambda>d. eventItem event d None)
                     items1 (fst r),
                   tick c, snd r))
         else (items1, c, h1))"

definition compareItems_h :: "store \<Rightarrow> addr CalendarItem \<Rightarrow> addr CalendarItem \<Rightarrow> int" where
  "compareItems_h h a b =
     (case readDate h (i_date a) of
        None \<Rightarrow> 0
      | Some x \<Rightarrow> (case readDate h (i_date b) of None \<Rightarrow> 0 | Some y \<Rightarrow> x - y))"

fun insertItem_h :: "store \<Rightarrow> addr CalendarItem \<Rightarrow> addr CalendarItem list \<Rightarrow> addr CalendarItem list" where
  "insertItem_h h a [] = [a]"
| "insertItem_h h a (b # bs) =
     (if compareItems_h h a b \<le> 0 then a # b # bs else b # insertItem_h h a bs)"

definition sortItems_h :: "store \<Rightarrow> addr CalendarItem list \<Rightarrow> addr CalendarItem list" where
  "sortItems_h h items = foldr (insertItem_h h) items []"

definition collectItems_h :: "platform \<Rightarrow> clock \<Rightarrow> ContentFilter \<Rightarrow> store \<Rightarrow> addr CalendarItem list \<times> clock \<times> store" where
  "collectItems_h P c filter_sel h =
     (let st1 = (if filter_sel = all_f \<or> filter_sel = shows_f
                 then foldl (addShow_h P) ([], c, h) (st_shows h) else ([], c, h))
      in if filter_sel = all_f \<or> filter_sel = events_f
         then foldl (addEvent_h P) st1 (st_events h) else st1)"

definition calendarItems_h :: "platform \<Rightarrow> clock \<Rightarrow> ContentFilter \<Rightarrow> string \<Rightarrow> store \<Rightarrow> addr CalendarItem list \<times> store" where
  "calendarItems_h P c filter_sel searchQuery h =
     (let items = fst (collectItems_h P c filter_sel h);
          h' = snd (snd (collectItems_h P c filter_sel h))
      in (if searchQuery \<noteq> [] then filter (matchesSearch P searchQuery) items
          else sortItems_h h' items,
          h'))"

text \<open>
  \<open>extends h h'\<close>: the store \<open>h'\<close> has the arrays of entities and every Date object
  of \<open>h\<close> as they are in \<open>h\<close>, and possibly more Date objects.
\<close>

definition extends :: "store \<Rightarrow> store \<Rightarrow> bool" where
  "extends h h' \<longleftrightarrow>
     st_shows h' = st_shows h \<and> st_events h' = st_events h \<and>
     take (length (st_dates h)) (st_dates h') = st_dates h"

text \<open>An item of the store with the time values of its Date objects in their place.\<close>

definition itemValue :: "store \<Rightarrow> addr CalendarItem \<Rightarrow> jsdate CalendarItem" where
  "itemValue h i =
     \<lparr> i_id = i_id i, i_title = i_title i, i_type = i_type i, i_date = readDate h (i_date i),
       i_endDate = map_option (readDate h) (i_endDate i), i_thumbnail = i_thumbnail i,
       i_creator = i_creator i, i_creatorId = i_creatorId i, i_slug = i_slug i,
       i_isVirtual = i_isVirtual i, i_location = i_location i, i_status = i_status i \<rparr>"

text \<open>The Date objects that an item holds.\<close>

definition itemDates :: "addr CalendarItem \<Rightarrow> addr list" where
  "itemDates i = i_date i # (case i_endDate i of None \<Rightarrow> [] | Some e \<Rightarrow> [e])"

text \<open>
  The relation between a state of the store functions and a state of the value functions
  that every step keeps, for a run that began in the store \<open>h0\<close>: the store extends
  \<open>h0\<close>, the items have the same values and the clocks are the same, and the Date
  objects of the items are allocated after \<open>h0\<close>, each held once.
\<close>

definition simulates :: "store \<Rightarrow> addr CalendarItem list \<times> clock \<times> store \<Rightarrow> jsdate CalendarItem list \<times> clock \<Rightarrow> bool" where
  "simulates h0 st pst \<longleftrightarrow>
     extends h0 (snd (snd st)) \<and>
     map (itemValue (snd (snd st))) (fst st) = fst pst \<and>
     fst (snd st) = snd pst \<and>
     (\<forall>a \<in> set (concat (map itemDates (fst st))).
        length (st_dates h0) \<le> a \<and> a < length (st_dates (snd (snd st)))) \<and>
     distinct (concat (map itemDates (fst st)))"

text \<open>A store of the examples: one recurring and one one-off show, and a Date object.\<close>

definition exampleStore :: store where
  "exampleStore =
     \<lparr> st_shows = [exampleShow 1 True (Some ''WEEKENDS'') None (Some ''18:30''),
                   exampleShow 2 False None None (Some ''2024-06-03T18:30:00'')],
       st_events = [],
       st_dates = [Some 0] \<rparr>"

section \<open>The weekday conversion\<close>

text \<open>
  C1. For every backend day 0..6 (0 = Monday ... 6 = Sunday) the conversion used by the
  SPECIFIC_DAY test returns (backendDay + 1) mod 7; backend Monday 0 becomes calendar
  Monday 1 and backend Sunday 6 becomes calendar Sunday 0. The SPECIFIC_DAY test of the
  projection and the one of the month grid both hold on exactly that weekday.
\<close>

theorem frontendDay_mod7:
  "0 \<le> backendDay \<and> backendDay \<le> 6 \<Longrightarrow>
     frontendDay backendDay = (backendDay + 1) mod 7 \<and> frontendDay 0 = 1 \<and> frontendDay 6 = 0 \<and>
     (shouldAdd (Some ''SPECIFIC_DAY'') (Some backendDay) (Some dow) \<longleftrightarrow>
        dow = (backendDay + 1) mod 7) \<and>
     (recursOn (Some ''SPECIFIC_DAY'') (Some backendDay) dow \<longleftrightarrow>
        dow = (backendDay + 1) mod 7)"
  by (auto simp add: frontendDay_def shouldAdd_def recursOn_def)

theorem frontendDay_mod7_witness:
  "(0::int) \<le> 3 \<and> (3::int) \<le> 6 \<and> frontendDay 3 = (3 + 1) mod 7 \<and> frontendDay 0 = 1 \<and>
   frontendDay 6 = 0 \<and> shouldAdd (Some ''SPECIFIC_DAY'') (Some 3) (Some 4) \<and>
   recursOn (Some ''SPECIFIC_DAY'') (Some 3) 4"
  using frontendDay_mod7 [of 3 4] by simp

section \<open>Dates of a projection\<close>

lemma MakeDate_local: "MakeDate (Day x + d) (TimeWithinDay x) = x + d * msPerDay"
  by (simp add: MakeDate_def Day_def TimeWithinDay_def algebra_simps)

lemma setDate_plus_Some:
  "setDate_plus P (Some t) d = TimeClip (UTC_of P (LocalTime P t + d * msPerDay))"
  by (simp add: setDate_plus_def MakeDate_local)

lemma TimeClip_Some: "TimeClip t = Some u \<Longrightarrow> u = t"
  by (simp add: TimeClip_def split: if_splits)

lemma Day_add_days: "Day (t + d * msPerDay) = Day t + d"
  by (simp add: Day_def msPerDay_def)

lemma TimeWithinDay_add_days: "TimeWithinDay (t + d * msPerDay) = TimeWithinDay t"
  by (simp add: TimeWithinDay_def msPerDay_def)

lemma TimeWithinDay_MakeDate: "TimeWithinDay (MakeDate day time) = time mod msPerDay"
  by (simp add: TimeWithinDay_def MakeDate_def)

lemma Day_MakeDate: "Day (MakeDate day time) = day + time div msPerDay"
  by (simp add: Day_def MakeDate_def msPerDay_def)






lemma projectDay_elem:
  "x \<in> set (projectDay P now rt k st d) \<Longrightarrow>
     x = applyScheduledTime P st (setDate_plus P (Some now) (int d))"
  by (simp add: projectDay_def Let_def split: if_splits)

lemma projectRecurringDates_elem:
  assumes "x \<in> set (projectRecurringDates P now rt k st)"
  obtains d where "d < 28" and "x = applyScheduledTime P st (setDate_plus P (Some now) (int d))"
  using assms by (auto simp add: projectRecurringDates_def dest: projectDay_elem)

lemma split_nonempty: "split c s \<noteq> []"
  by (cases s) (auto split: list.splits)

lemma split_two_parts: "c \<in> set s \<Longrightarrow> 2 \<le> length (split c s)"
  by (induction s) (auto simp add: split_nonempty Suc_le_eq split: list.splits)

lemma bare_parts:
  assumes "CHR '':'' \<in> set s"
  shows "Number_part P (nth_part (split CHR '':'' s) 0) = toInteger P (split CHR '':'' s ! 0)"
    and "Number_part P (nth_part (split CHR '':'' s) 1) = toInteger P (split CHR '':'' s ! 1)"
proof -
  from assms have "2 \<le> length (split CHR '':'' s)" by (rule split_two_parts)
  then have "0 < length (split CHR '':'' s)" and "1 < length (split CHR '':'' s)"
    by linarith+
  then show "Number_part P (nth_part (split CHR '':'' s) 0) = toInteger P (split CHR '':'' s ! 0)"
    and "Number_part P (nth_part (split CHR '':'' s) 1) = toInteger P (split CHR '':'' s ! 1)"
    unfolding nth_part_def Number_part_def by simp_all
qed


lemma setHours_Some:
  assumes "setHours P hours minutes date = Some u"
  shows "\<exists>h m v. hours = Some h \<and> minutes = Some m \<and> date = Some v \<and>
           u = UTC_of P (MakeDate (Day (LocalTime P v)) (MakeTime h m 0 0))"
  using assms by (auto simp add: setHours_def split: option.splits dest: TimeClip_Some)

lemma MakeTime_hm: "MakeTime h m 0 0 = h * msPerHour + m * msPerMinute"
  by (simp add: MakeTime_def)

lemma hours_minutes_in_day:
  "0 \<le> getHours P u * msPerHour + getMinutes P u * msPerMinute \<and>
   getHours P u * msPerHour + getMinutes P u * msPerMinute < msPerDay"
proof -
  have "0 \<le> getHours P u" "getHours P u < 24" "0 \<le> getMinutes P u" "getMinutes P u < 60"
    by (simp_all add: getHours_def getMinutes_def HourFromTime_def MinFromTime_def)
  then show ?thesis
    by (simp add: msPerHour_def msPerMinute_def msPerDay_def)
qed

lemma hours_minutes_within_day:
  "(getHours P u * msPerHour + getMinutes P u * msPerMinute) mod msPerDay =
     getHours P u * msPerHour + getMinutes P u * msPerMinute"
  using hours_minutes_in_day [of P u] by simp


subsection \<open>The zone of the examples that sets its clocks back\<close>

lemma P1_round_trip: "LocalTime P1 (UTC_of P1 x) = x"
  by (simp add: LocalTime_def UTC_of_def P1_def autumnTZA_def)


text \<open>
  With the clock at 12:00 local time on 2024-10-30 in that zone, the daily dates stay at
  12:00 local time: the fifth, after the clocks went back, is 25 hours after the fourth.
\<close>

lemma daily_dates_across_clock_change:
  "projectRecurringDates P1 (20026 * 86400000 + 16 * 3600000) (Some ''DAILY'') None None ! 3 =
     Some (20029 * 86400000 + 16 * 3600000) \<and>
   projectRecurringDates P1 (20026 * 86400000 + 16 * 3600000) (Some ''DAILY'') None None ! 4 =
     Some (20030 * 86400000 + 17 * 3600000) \<and>
   (20030 * 86400000 + 17 * 3600000 :: int) = 1730653200000"
  by code_simp

subsection \<open>The time of day\<close>

text \<open>
  C5. The time of day of a recurring entity's occurrences, in local time. If the schedule
  string has a colon and at most 8 characters, the numbers of its first two parts
  between colons are the hour and the minute. Otherwise, if it parses as a timestamp,
  the local hour and minute of that timestamp are taken. If the string is absent or
  empty, or does not parse, the occurrence keeps the local time of day of the clock
  reading: it is not set to 00:00. This is stated of every occurrence whose instant the
  platform gives to no local time but the occurrence's own. It leaves out the instants
  that the platform also gives to the local times skipped when the clocks are set
  forward (a skipped 02:30 is read as 03:30): an occurrence there may stand in for a
  skipped local time, and then has another time of day than the one asked for.
\<close>

theorem time_of_day_resolution:
  assumes "Some t \<in> set (projectRecurringDates P now recurrenceType dayOfWeek scheduledTime)"
    and "\<forall>w. UTC_of P w = t \<longrightarrow> LocalTime P t = w"
  shows "(\<forall>s. scheduledTime = Some s \<and> CHR '':'' \<in> set s \<and> length s \<le> 8 \<longrightarrow>
            (\<exists>h m. toInteger P (split CHR '':'' s ! 0) = Some h \<and>
                   toInteger P (split CHR '':'' s ! 1) = Some m \<and>
                   TimeWithinDay (LocalTime P t) = (h * msPerHour + m * msPerMinute) mod msPerDay)) \<and>
         (\<forall>s u. scheduledTime = Some s \<and> s \<noteq> [] \<and> \<not> (CHR '':'' \<in> set s \<and> length s \<le> 8) \<and>
                dateParse P s = Some u \<longrightarrow>
            TimeWithinDay (LocalTime P t) = getHours P u * msPerHour + getMinutes P u * msPerMinute) \<and>
         (\<not> truthy scheduledTime \<or>
          (\<exists>s. scheduledTime = Some s \<and> \<not> (CHR '':'' \<in> set s \<and> length s \<le> 8) \<and> dateParse P s = None) \<longrightarrow>
            TimeWithinDay (LocalTime P t) = TimeWithinDay (LocalTime P now))"
proof -
  from assms(1) obtain d where t: "Some t = applyScheduledTime P scheduledTime (setDate_plus P (Some now) (int d))"
    by (rule projectRecurringDates_elem)
  have set_time: "TimeWithinDay (LocalTime P t) = (h * msPerHour + m * msPerMinute) mod msPerDay"
    if "Some t = setHours P (Some h) (Some m) date" for h m date
  proof -
    from that obtain v where "t = UTC_of P (MakeDate (Day (LocalTime P v)) (MakeTime h m 0 0))"
      using setHours_Some [of P "Some h" "Some m" date t] by auto
    with assms(2) have "LocalTime P t = MakeDate (Day (LocalTime P v)) (MakeTime h m 0 0)"
      by simp
    then show ?thesis by (simp add: TimeWithinDay_MakeDate MakeTime_hm)
  qed
  have bare: "\<exists>h m. toInteger P (split CHR '':'' s ! 0) = Some h \<and>
                   toInteger P (split CHR '':'' s ! 1) = Some m \<and>
                   TimeWithinDay (LocalTime P t) = (h * msPerHour + m * msPerMinute) mod msPerDay"
    if s: "scheduledTime = Some s" "CHR '':'' \<in> set s" "length s \<le> 8" for s
  proof -
    from s have "s \<noteq> []" by auto
    with t s have eq: "Some t = setHours P (toInteger P (split CHR '':'' s ! 0))
        (toInteger P (split CHR '':'' s ! 1)) (setDate_plus P (Some now) (int d))"
      by (simp add: applyScheduledTime_def Let_def bare_parts bare_parts [unfolded One_nat_def])
    then obtain h m where hm: "toInteger P (split CHR '':'' s ! 0) = Some h"
      "toInteger P (split CHR '':'' s ! 1) = Some m"
      using setHours_Some [OF sym] by blast
    with eq have "TimeWithinDay (LocalTime P t) = (h * msPerHour + m * msPerMinute) mod msPerDay"
      by (intro set_time) simp
    with hm show ?thesis by blast
  qed
  have parsed: "TimeWithinDay (LocalTime P t) = getHours P u * msPerHour + getMinutes P u * msPerMinute"
    if s: "scheduledTime = Some s" "s \<noteq> []" "\<not> (CHR '':'' \<in> set s \<and> length s \<le> 8)" "dateParse P s = Some u"
    for s u
  proof -
    from t s have "Some t = setHours P (Some (getHours P u)) (Some (getMinutes P u))
        (setDate_plus P (Some now) (int d))"
      by (auto simp add: applyScheduledTime_def)
    then have "TimeWithinDay (LocalTime P t) =
        (getHours P u * msPerHour + getMinutes P u * msPerMinute) mod msPerDay"
      by (rule set_time)
    then show ?thesis by (simp add: hours_minutes_within_day)
  qed
  have kept: "TimeWithinDay (LocalTime P t) = TimeWithinDay (LocalTime P now)"
    if "applyScheduledTime P scheduledTime (setDate_plus P (Some now) (int d)) =
        setDate_plus P (Some now) (int d)"
  proof -
    from t that have "TimeClip (UTC_of P (LocalTime P now + int d * msPerDay)) = Some t"
      by (simp add: setDate_plus_Some)
    then have "t = UTC_of P (LocalTime P now + int d * msPerDay)" by (rule TimeClip_Some)
    with assms(2) have "LocalTime P t = LocalTime P now + int d * msPerDay" by simp
    then show ?thesis by (simp only: TimeWithinDay_add_days)
  qed
  have absent: "TimeWithinDay (LocalTime P t) = TimeWithinDay (LocalTime P now)"
    if "\<not> truthy scheduledTime"
    using that by (intro kept) (auto simp add: applyScheduledTime_def truthy_def split: option.splits)
  have unparsed: "TimeWithinDay (LocalTime P t) = TimeWithinDay (LocalTime P now)"
    if "scheduledTime = Some s" "\<not> (CHR '':'' \<in> set s \<and> length s \<le> 8)" "dateParse P s = None" for s
    using that by (intro kept) (auto simp add: applyScheduledTime_def)
  from bare parsed absent unparsed show ?thesis by blast
qed

text \<open>
  In the zone that sets its clocks back, with the clock at 12:00 local time and no
  schedule string, the occurrence after the change is at 12:00 local time as well.
\<close>

theorem time_of_day_resolution_witness:
  "Some (20030 * 86400000 + 17 * 3600000)
     \<in> set (projectRecurringDates P1 (20026 * 86400000 + 16 * 3600000) (Some ''DAILY'') None None) \<and>
   TimeWithinDay (LocalTime P1 (20030 * 86400000 + 17 * 3600000)) = 12 * msPerHour \<and>
   TimeWithinDay (LocalTime P1 (20026 * 86400000 + 16 * 3600000)) = 12 * msPerHour"
proof -
  have mem: "Some (20030 * 86400000 + 17 * 3600000)
      \<in> set (projectRecurringDates P1 (20026 * 86400000 + 16 * 3600000) (Some ''DAILY'') None None)"
    by code_simp
  have own: "\<forall>w. UTC_of P1 w = 20030 * 86400000 + 17 * 3600000 \<longrightarrow>
      LocalTime P1 (20030 * 86400000 + 17 * 3600000) = w"
    using P1_round_trip by metis
  have clock: "TimeWithinDay (LocalTime P1 (20026 * 86400000 + 16 * 3600000)) = 12 * msPerHour"
    by (simp add: TimeWithinDay_def LocalTime_def P1_def autumnTZA_def msPerDay_def msPerHour_def)
  from time_of_day_resolution [OF mem own] have
    "TimeWithinDay (LocalTime P1 (20030 * 86400000 + 17 * 3600000)) =
       TimeWithinDay (LocalTime P1 (20026 * 86400000 + 16 * 3600000))"
    by (simp add: truthy_def)
  with mem clock show ?thesis by simp
qed

text \<open>
  At 09:15 a DAILY entity with no schedule string gets its first occurrence at 09:15,
  not at 00:00; with the string "ab:cd" the occurrence is the Invalid Date.
\<close>

theorem time_of_day_not_midnight:
  "projectRecurringDates P0 (19877 * 86400000 + 33300000) (Some ''DAILY'') None None ! 0
     = Some (19877 * 86400000 + 33300000) \<and>
   TimeWithinDay (LocalTime P0 (19877 * 86400000 + 33300000)) = 9 * msPerHour + 15 * msPerMinute \<and>
   projectRecurringDates P0 (19877 * 86400000 + 33300000) (Some ''DAILY'') None (Some ''ab:cd'') ! 0
     = None"
  by code_simp

subsection \<open>The days of a daily entity\<close>







section \<open>The Monday show\<close>

lemma upt_28:
  "[0..<28] = [0, 1, 2, 3, 4, 5, 6, 7, 8, 9, 10, 11, 12, 13, 14, 15, 16, 17, 18, 19, 20, 21,
               22, 23, 24, 25, 26, 27 :: nat]"
  by code_simp

lemma split_18_30: "split CHR '':'' ''18:30'' = [''18'', ''30'']"
  by simp

lemma monday_projectDay:
  assumes day: "Day (LocalTime P now) = 19877"
    and zone: "\<forall>x. 19877 \<le> Day x \<and> Day x < 19905 \<longrightarrow>
                 Day (LocalTime P (UTC_of P x)) = Day x \<and> \<bar>localTZA P x False\<bar> \<le> msPerDay"
    and h: "toInteger P ''18'' = Some 18" and m: "toInteger P ''30'' = Some 30"
    and d: "d < 28"
  shows "projectDay P now (Some ''SPECIFIC_DAY'') (Some 0) (Some ''18:30'') d =
           (if int d mod 7 = 0
            then [Some (UTC_of P (MakeDate (19877 + int d) (MakeTime 18 30 0 0)))]
            else [])"
proof -
  let ?x = "LocalTime P now + int d * msPerDay"
  let ?y = "MakeDate (19877 + int d) (MakeTime 18 30 0 0)"
  from day have lo: "19877 * msPerDay \<le> LocalTime P now" and hi: "LocalTime P now < 19878 * msPerDay"
    by (simp_all add: Day_def msPerDay_def)
  have dx: "Day ?x = 19877 + int d"
    by (simp only: Day_add_days day)
  have dy: "Day ?y = 19877 + int d"
    by (simp add: Day_MakeDate MakeTime_def msPerDay_def msPerHour_def msPerMinute_def)
  from dx d have "19877 \<le> Day ?x \<and> Day ?x < 19905" by simp
  with zone have "Day (LocalTime P (UTC_of P ?x)) = Day ?x \<and> \<bar>localTZA P ?x False\<bar> \<le> msPerDay"
    by blast
  with dx have dayd: "Day (LocalTime P (UTC_of P ?x)) = 19877 + int d"
    and off: "\<bar>localTZA P ?x False\<bar> \<le> msPerDay"
    by simp_all
  from dy d have "19877 \<le> Day ?y \<and> Day ?y < 19905" by simp
  with zone have "Day (LocalTime P (UTC_of P ?y)) = Day ?y \<and> \<bar>localTZA P ?y False\<bar> \<le> msPerDay"
    by blast
  then have off': "\<bar>localTZA P ?y False\<bar> \<le> msPerDay"
    by simp
  from lo hi off d have clip: "TimeClip (UTC_of P ?x) = Some (UTC_of P ?x)"
    by (simp add: TimeClip_def UTC_of_def msPerDay_def)
  have dow: "getDay P (Some (UTC_of P ?x)) = Some ((int d + 1) mod 7)"
    by (simp add: getDay_def WeekDay_def dayd) presburger
  have add: "shouldAdd (Some ''SPECIFIC_DAY'') (Some 0) (Some ((int d + 1) mod 7)) = (int d mod 7 = 0)"
    by (simp add: shouldAdd_def frontendDay_def) presburger
  from off' d have "TimeClip (UTC_of P ?y) = Some (UTC_of P ?y)"
    by (simp add: TimeClip_def UTC_of_def MakeDate_def MakeTime_def msPerDay_def msPerHour_def msPerMinute_def)
  then have time: "applyScheduledTime P (Some ''18:30'') (Some (UTC_of P ?x)) = Some (UTC_of P ?y)"
    by (simp add: applyScheduledTime_def split_18_30 nth_part_def Number_part_def h m setHours_def dayd)
  show ?thesis
    by (simp add: projectDay_def Let_def setDate_plus_Some clip dow add time)
qed

text \<open>
  C2. The recurring show of backend day 0 (Monday) at "18:30", projected when the clock
  reads Monday 2024-06-03 (local day 19877): there is no two-week window to pass, the
  projection covers four weeks and yields four occurrences, on 2024-06-03, 2024-06-10,
  2024-06-17 and 2024-06-24, each at 18:30 local time. The first two are the ones of
  the two weeks from 2024-06-03 to 2024-06-17. What is asked of the time zone concerns
  these four weeks only: the offset of their local times is at most a day, and none of
  them is moved to another calendar day by a change of the clocks. A zone that keeps one
  offset during the four weeks is of this kind.
\<close>

theorem monday_show_four_weeks:
  assumes "Day (LocalTime P now) = 19877"
    and "\<forall>x. 19877 \<le> Day x \<and> Day x < 19905 \<longrightarrow>
           Day (LocalTime P (UTC_of P x)) = Day x \<and> \<bar>localTZA P x False\<bar> \<le> msPerDay"
    and "toInteger P ''18'' = Some 18" and "toInteger P ''30'' = Some 30"
  shows "projectRecurringDates P now (Some ''SPECIFIC_DAY'') (Some 0) (Some ''18:30'') =
           [Some (UTC_of P (MakeDate 19877 (MakeTime 18 30 0 0))),
            Some (UTC_of P (MakeDate 19884 (MakeTime 18 30 0 0))),
            Some (UTC_of P (MakeDate 19891 (MakeTime 18 30 0 0))),
            Some (UTC_of P (MakeDate 19898 (MakeTime 18 30 0 0)))]"
  unfolding projectRecurringDates_def upt_28
  by (simp add: monday_projectDay [OF assms])

text \<open>
  In the zone that sets its clocks back in the autumn, four hours behind UTC in June,
  with the clock at 08:00 local time on 2024-06-03: the occurrences are at 22:30 UTC.
\<close>

theorem monday_show_four_weeks_witness:
  "Day (LocalTime P1 (19877 * 86400000 + 12 * 3600000)) = 19877 \<and>
   toInteger P1 ''18'' = Some 18 \<and> toInteger P1 ''30'' = Some 30 \<and>
   projectRecurringDates P1 (19877 * 86400000 + 12 * 3600000) (Some ''SPECIFIC_DAY'') (Some 0)
       (Some ''18:30'') =
     [Some (19877 * 86400000 + 81000000), Some (19884 * 86400000 + 81000000),
      Some (19891 * 86400000 + 81000000), Some (19898 * 86400000 + 81000000)]"
proof -
  have a: "Day (LocalTime P1 (19877 * 86400000 + 12 * 3600000)) = 19877"
    by (simp add: Day_def LocalTime_def P1_def autumnTZA_def msPerDay_def)
  have b: "\<forall>x. 19877 \<le> Day x \<and> Day x < 19905 \<longrightarrow>
      Day (LocalTime P1 (UTC_of P1 x)) = Day x \<and> \<bar>localTZA P1 x False\<bar> \<le> msPerDay"
    by (simp add: P1_round_trip) (simp add: P1_def autumnTZA_def msPerDay_def)
  have c: "toInteger P1 ''18'' = Some 18" and d: "toInteger P1 ''30'' = Some 30"
    by (simp_all add: P1_def P0_def decimalNumber_def digit_def)
  have e: "UTC_of P1 (MakeDate 19877 (MakeTime 18 30 0 0)) = 19877 * 86400000 + 81000000"
    "UTC_of P1 (MakeDate 19884 (MakeTime 18 30 0 0)) = 19884 * 86400000 + 81000000"
    "UTC_of P1 (MakeDate 19891 (MakeTime 18 30 0 0)) = 19891 * 86400000 + 81000000"
    "UTC_of P1 (MakeDate 19898 (MakeTime 18 30 0 0)) = 19898 * 86400000 + 81000000"
    by (simp_all add: UTC_of_def P1_def autumnTZA_def MakeDate_def MakeTime_def msPerDay_def
        msPerHour_def msPerMinute_def)
  from a c d monday_show_four_weeks [OF a b c d] show ?thesis
    by (simp only: e)
qed

text \<open>
  The projection of the Monday show is not the two occurrences of the two-week window:
  it has the occurrences of 2024-06-17 and 2024-06-24 as well.
\<close>

theorem monday_show_not_two:
  "projectRecurringDates P0 (19877 * 86400000) (Some ''SPECIFIC_DAY'') (Some 0) (Some ''18:30'') \<noteq>
     [Some (19877 * 86400000 + 66600000), Some (19884 * 86400000 + 66600000)] \<and>
   length (projectRecurringDates P0 (19877 * 86400000) (Some ''SPECIFIC_DAY'') (Some 0) (Some ''18:30'')) = 4"
  by code_simp
section \<open>The items of the calendar\<close>

lemma itemKey_showItem: "itemKey P (showItem show d) = (s_id show, show_t, toDateString P d)"
  by (simp add: itemKey_def showItem_def)

lemma itemKey_eventItem: "itemKey P (eventItem event d e) = (e_id event, event_t, toDateString P d)"
  by (simp add: itemKey_def eventItem_def)

lemma sameEntityDay_itemKey:
  "sameEntityDay P idv ty d i \<longleftrightarrow> itemKey P i = (idv, ty, toDateString P d)"
  by (simp add: sameEntityDay_def itemKey_def)

lemma find_sameEntityDay_None:
  "find (sameEntityDay P idv ty d) items = None \<longleftrightarrow>
     (idv, ty, toDateString P d) \<notin> set (map (itemKey P) items)"
  by (force simp add: find_None_iff sameEntityDay_itemKey)

lemma pushDate_distinct:
  assumes "distinct (map (itemKey P) items)"
    and "\<And>d. itemKey P (mk d) = (idv, ty, toDateString P d)"
  shows "distinct (map (itemKey P) (pushDate P idv ty mk items d))"
  using assms by (simp add: pushDate_def find_sameEntityDay_None)

lemma pushDates_distinct:
  assumes "\<And>d. itemKey P (mk d) = (idv, ty, toDateString P d)"
  shows "distinct (map (itemKey P) items) \<Longrightarrow>
           distinct (map (itemKey P) (pushDates P idv ty mk items dates))"
  unfolding pushDates_def
proof (induction dates arbitrary: items)
  case Nil
  then show ?case by simp
next
  case (Cons d dates)
  from Cons.prems assms have "distinct (map (itemKey P) (pushDate P idv ty mk items d))"
    by (rule pushDate_distinct)
  then show ?case by (simp add: Cons.IH)
qed

lemma addShow_distinct:
  assumes "s_is_recurring show" and "distinct (map (itemKey P) (fst st))"
  shows "distinct (map (itemKey P) (fst (addShow P st show)))"
  using assms by (simp add: addShow_def Let_def pushDates_distinct itemKey_showItem)

lemma addEvent_distinct:
  assumes "e_is_recurring event" and "distinct (map (itemKey P) (fst st))"
  shows "distinct (map (itemKey P) (fst (addEvent P st event)))"
  using assms by (simp add: addEvent_def Let_def pushDates_distinct itemKey_eventItem)

lemma set_insertItem: "set (insertItem a items) = insert a (set items)"
  by (induction items) auto

lemma set_sortItems: "set (sortItems items) = set items"
  by (induction items) (simp_all add: sortItems_def set_insertItem)

lemma distinct_map_insertItem:
  "distinct (map f (insertItem a items)) \<longleftrightarrow> f a \<notin> f ` set items \<and> distinct (map f items)"
  by (induction items) (auto simp add: set_insertItem)

lemma distinct_map_sortItems:
  "distinct (map f (sortItems items)) \<longleftrightarrow> distinct (map f items)"
proof (induction items)
  case Nil
  then show ?case by (simp add: sortItems_def)
next
  case (Cons a items)
  have "sortItems (a # items) = insertItem a (sortItems items)"
    by (simp add: sortItems_def)
  with Cons show ?case
    by (simp add: distinct_map_insertItem set_sortItems)
qed

lemma set_pushDates_new:
  "i \<in> set (pushDates P idv ty mk items dates) \<Longrightarrow> i \<in> set items \<or> (\<exists>d. i = mk d)"
  unfolding pushDates_def
proof (induction dates arbitrary: items)
  case Nil
  then show ?case by simp
next
  case (Cons d dates)
  from Cons.prems have "i \<in> set (foldl (pushDate P idv ty mk) (pushDate P idv ty mk items d) dates)"
    by simp
  then have "i \<in> set (pushDate P idv ty mk items d) \<or> (\<exists>d. i = mk d)"
    by (rule Cons.IH)
  then show ?case by (auto simp add: pushDate_def split: if_splits)
qed

lemma addShow_new_items:
  assumes "i \<in> set (fst (addShow P st s))"
  shows "i \<in> set (fst st) \<or> (i_id i = s_id s \<and> i_type i = show_t)"
proof -
  have made: "i_id (showItem s d) = s_id s \<and> i_type (showItem s d) = show_t" for d :: jsdate
    by (simp add: showItem_def)
  from assms show ?thesis
    by (auto simp add: addShow_def Let_def made split: if_splits dest!: set_pushDates_new)
qed

lemma addEvent_new_items:
  assumes "i \<in> set (fst (addEvent P st e))"
  shows "i \<in> set (fst st) \<or> (i_id i = e_id e \<and> i_type i = event_t)"
proof -
  have made: "i_id (eventItem e d x) = e_id e \<and> i_type (eventItem e d x) = event_t"
    for d :: jsdate and x
    by (simp add: eventItem_def)
  from assms show ?thesis
    by (auto simp add: addEvent_def Let_def made split: if_splits dest!: set_pushDates_new)
qed

lemma foldl_addShow_new_items:
  "i \<in> set (fst (foldl (addShow P) st showList)) \<Longrightarrow> i \<in> set (fst st) \<or> i_type i = show_t"
proof (induction showList arbitrary: st)
  case Nil
  then show ?case by simp
next
  case (Cons s showList)
  from Cons.prems have "i \<in> set (fst (foldl (addShow P) (addShow P st s) showList))"
    by simp
  then have "i \<in> set (fst (addShow P st s)) \<or> i_type i = show_t"
    by (rule Cons.IH)
  then show ?case by (auto dest: addShow_new_items)
qed

lemma addShow_distinct_one_off:
  assumes "distinct (map (itemKey P) (fst st))"
    and "\<forall>i \<in> set (fst st). \<not> (i_id i = s_id s \<and> i_type i = show_t)"
  shows "distinct (map (itemKey P) (fst (addShow P st s)))"
proof (cases "s_is_recurring s")
  case True
  with assms(1) show ?thesis by (simp add: addShow_distinct)
next
  case False
  have "itemKey P (showItem s d) \<notin> itemKey P ` set (fst st)" for d
    using assms(2) by (auto simp add: itemKey_def showItem_def)
  with False assms(1) show ?thesis
    by (simp add: addShow_def Let_def)
qed

lemma addEvent_distinct_one_off:
  assumes "distinct (map (itemKey P) (fst st))"
    and "\<forall>i \<in> set (fst st). \<not> (i_id i = e_id e \<and> i_type i = event_t)"
  shows "distinct (map (itemKey P) (fst (addEvent P st e)))"
proof (cases "e_is_recurring e")
  case True
  with assms(1) show ?thesis by (simp add: addEvent_distinct)
next
  case False
  have "itemKey P (eventItem e d x) \<notin> itemKey P ` set (fst st)" for d x
    using assms(2) by (auto simp add: itemKey_def eventItem_def)
  with False assms(1) show ?thesis
    by (simp add: addEvent_def Let_def)
qed

lemma once_in_tail:
  assumes "length (filter (\<lambda>y. f y = f x) (a # rest)) = 1" and "x \<in> set rest"
  shows "f a \<noteq> f x \<and> length (filter (\<lambda>y. f y = f x) rest) = 1"
proof -
  from assms(2) have "filter (\<lambda>y. f y = f x) rest \<noteq> []"
    by (auto simp add: filter_empty_conv)
  then have "0 < length (filter (\<lambda>y. f y = f x) rest)" by simp
  with assms(1) show ?thesis by (auto split: if_splits)
qed

lemma foldl_addShow_distinct_once:
  assumes "distinct (map (itemKey P) (fst st))"
    and "\<forall>s \<in> set showList. \<not> s_is_recurring s \<longrightarrow>
           length (filter (\<lambda>s'. s_id s' = s_id s) showList) = 1 \<and>
           (\<forall>i \<in> set (fst st). \<not> (i_id i = s_id s \<and> i_type i = show_t))"
  shows "distinct (map (itemKey P) (fst (foldl (addShow P) st showList)))"
  using assms
proof (induction showList arbitrary: st)
  case Nil
  then show ?case by simp
next
  case (Cons a rest)
  have step: "distinct (map (itemKey P) (fst (addShow P st a)))"
  proof (cases "s_is_recurring a")
    case True
    with Cons.prems(1) show ?thesis by (simp add: addShow_distinct)
  next
    case False
    with Cons.prems(2) have "\<forall>i \<in> set (fst st). \<not> (i_id i = s_id a \<and> i_type i = show_t)"
      by simp
    with Cons.prems(1) show ?thesis by (rule addShow_distinct_one_off)
  qed
  have later: "length (filter (\<lambda>s'. s_id s' = s_id s) rest) = 1 \<and>
      (\<forall>i \<in> set (fst (addShow P st a)). \<not> (i_id i = s_id s \<and> i_type i = show_t))"
    if "s \<in> set rest" and "\<not> s_is_recurring s" for s
  proof -
    from that Cons.prems(2) have once: "length (filter (\<lambda>s'. s_id s' = s_id s) (a # rest)) = 1"
      and old: "\<forall>i \<in> set (fst st). \<not> (i_id i = s_id s \<and> i_type i = show_t)"
      by simp_all
    from once that(1) have "s_id a \<noteq> s_id s \<and> length (filter (\<lambda>s'. s_id s' = s_id s) rest) = 1"
      by (rule once_in_tail)
    with old show ?thesis by (auto dest: addShow_new_items)
  qed
  from Cons.IH [OF step] later show ?case by simp
qed

lemma foldl_addEvent_distinct_once:
  assumes "distinct (map (itemKey P) (fst st))"
    and "\<forall>e \<in> set eventList. \<not> e_is_recurring e \<longrightarrow>
           length (filter (\<lambda>e'. e_id e' = e_id e) eventList) = 1 \<and>
           (\<forall>i \<in> set (fst st). \<not> (i_id i = e_id e \<and> i_type i = event_t))"
  shows "distinct (map (itemKey P) (fst (foldl (addEvent P) st eventList)))"
  using assms
proof (induction eventList arbitrary: st)
  case Nil
  then show ?case by simp
next
  case (Cons a rest)
  have step: "distinct (map (itemKey P) (fst (addEvent P st a)))"
  proof (cases "e_is_recurring a")
    case True
    with Cons.prems(1) show ?thesis by (simp add: addEvent_distinct)
  next
    case False
    with Cons.prems(2) have "\<forall>i \<in> set (fst st). \<not> (i_id i = e_id a \<and> i_type i = event_t)"
      by simp
    with Cons.prems(1) show ?thesis by (rule addEvent_distinct_one_off)
  qed
  have later: "length (filter (\<lambda>e'. e_id e' = e_id e) rest) = 1 \<and>
      (\<forall>i \<in> set (fst (addEvent P st a)). \<not> (i_id i = e_id e \<and> i_type i = event_t))"
    if "e \<in> set rest" and "\<not> e_is_recurring e" for e
  proof -
    from that Cons.prems(2) have once: "length (filter (\<lambda>e'. e_id e' = e_id e) (a # rest)) = 1"
      and old: "\<forall>i \<in> set (fst st). \<not> (i_id i = e_id e \<and> i_type i = event_t)"
      by simp_all
    from once that(1) have "e_id a \<noteq> e_id e \<and> length (filter (\<lambda>e'. e_id e' = e_id e) rest) = 1"
      by (rule once_in_tail)
    with old show ?thesis by (auto dest: addEvent_new_items)
  qed
  from Cons.IH [OF step] later show ?case by simp
qed

lemma collectItems_distinct_once:
  assumes "\<forall>s \<in> set shows. \<not> s_is_recurring s \<longrightarrow>
             length (filter (\<lambda>s'. s_id s' = s_id s) shows) = 1"
    and "\<forall>e \<in> set events. \<not> e_is_recurring e \<longrightarrow>
             length (filter (\<lambda>e'. e_id e' = e_id e) events) = 1"
  shows "distinct (map (itemKey P) (fst (collectItems P c shows events filter_sel)))"
proof -
  let ?start = "([], c) :: jsdate CalendarItem list \<times> clock"
  let ?st1 = "foldl (addShow P) ?start shows"
  have d1: "distinct (map (itemKey P) (fst ?st1))"
    using assms(1) by (intro foldl_addShow_distinct_once) simp_all
  have shows_only: "\<forall>i \<in> set (fst ?st1). i_type i = show_t"
    using foldl_addShow_new_items [of _ P ?start "shows"] by auto
  have d2: "distinct (map (itemKey P) (fst (foldl (addEvent P) ?st1 events)))"
    using d1 assms(2) shows_only by (intro foldl_addEvent_distinct_once) auto
  have d3: "distinct (map (itemKey P) (fst (foldl (addEvent P) ?start events)))"
    using assms(2) by (intro foldl_addEvent_distinct_once) simp_all
  from d1 d2 d3 show ?thesis
    by (simp add: collectItems_def Let_def)
qed

text \<open>
  C4. When every non-recurring show and event of the input stands once in its list (no
  other entry of the list has its id), no two items of the output have the same id,
  type and calendar day; a recurring entity may stand in the list any number of times,
  since a projected date is pushed only if no such item is there yet. (The item of a
  one-off entity is pushed without that check.)
\<close>

theorem items_have_distinct_keys:
  assumes "\<forall>s \<in> set shows. \<not> s_is_recurring s \<longrightarrow>
             length (filter (\<lambda>s'. s_id s' = s_id s) shows) = 1"
    and "\<forall>e \<in> set events. \<not> e_is_recurring e \<longrightarrow>
             length (filter (\<lambda>e'. e_id e' = e_id e) events) = 1"
  shows "distinct (map (itemKey P) (calendarItems P c shows events filter_sel searchQuery))"
proof -
  have "distinct (map (itemKey P) (fst (collectItems P c shows events filter_sel)))"
    using assms by (rule collectItems_distinct_once)
  then show ?thesis
    by (simp add: calendarItems_def Let_def distinct_map_sortItems distinct_map_filter)
qed

theorem items_have_distinct_keys_witness:
  "distinct (map (itemKey P0)
     (calendarItems P0 (clockAt (19877 * 86400000))
        [exampleShow 1 True (Some ''DAILY'') None (Some ''18:30''),
         exampleShow 2 False None None (Some ''2024-06-03T18:30:00''),
         exampleShow 1 True (Some ''DAILY'') None (Some ''18:30'')] [] all_f [])) \<and>
   length (calendarItems P0 (clockAt (19877 * 86400000))
        [exampleShow 1 True (Some ''DAILY'') None (Some ''18:30''),
         exampleShow 2 False None None (Some ''2024-06-03T18:30:00''),
         exampleShow 1 True (Some ''DAILY'') None (Some ''18:30'')] [] all_f []) = 29"
proof -
  have "distinct (map (itemKey P0)
     (calendarItems P0 (clockAt (19877 * 86400000))
        [exampleShow 1 True (Some ''DAILY'') None (Some ''18:30''),
         exampleShow 2 False None None (Some ''2024-06-03T18:30:00''),
         exampleShow 1 True (Some ''DAILY'') None (Some ''18:30'')] [] all_f []))"
    by (rule items_have_distinct_keys) (simp_all add: exampleShow_def)
  moreover have "length (calendarItems P0 (clockAt (19877 * 86400000))
        [exampleShow 1 True (Some ''DAILY'') None (Some ''18:30''),
         exampleShow 2 False None None (Some ''2024-06-03T18:30:00''),
         exampleShow 1 True (Some ''DAILY'') None (Some ''18:30'')] [] all_f []) = 29"
    by code_simp
  ultimately show ?thesis by blast
qed

text \<open>
  A one-off show that stands twice in the input gives two items of the same id, type
  and calendar day.
\<close>

theorem one_off_items_share_key:
  "map (itemKey P0)
     (calendarItems P0 (clockAt (19877 * 86400000))
        [exampleShow 1 False None None (Some ''2024-06-03T18:30:00''),
         exampleShow 1 False None None (Some ''2024-06-03T18:30:00'')] [] all_f []) =
   [(1, show_t, Some 19877), (1, show_t, Some 19877)]"
  by code_simp

section \<open>The order of the items\<close>

lemma compareItems_valid:
  "i_date a = Some x \<Longrightarrow> i_date b = Some y \<Longrightarrow> compareItems a b = x - y"
  by (simp add: compareItems_def)

lemma sorted_insertItem:
  assumes "None \<notin> i_date ` set (a # items)"
    and "sorted_wrt (\<lambda>a b. \<exists>x y. i_date a = Some x \<and> i_date b = Some y \<and> x \<le> y) items"
  shows "sorted_wrt (\<lambda>a b. \<exists>x y. i_date a = Some x \<and> i_date b = Some y \<and> x \<le> y) (insertItem a items)"
  using assms
proof (induction items)
  case Nil
  then show ?case by simp
next
  case (Cons b items)
  from Cons.prems(1) obtain x y where x: "i_date a = Some x" and y: "i_date b = Some y"
    by (cases "i_date a"; cases "i_date b") (auto simp add: image_iff)
  show ?case
  proof (cases "compareItems a b \<le> 0")
    case True
    with x y have xy: "x \<le> y" by (simp add: compareItems_valid)
    have "\<exists>x y. i_date a = Some x \<and> i_date c = Some y \<and> x \<le> y" if "c \<in> set items" for c
    proof -
      from Cons.prems(2) that obtain z where "i_date c = Some z" "y \<le> z"
        using y by auto
      with x xy show ?thesis by auto
    qed
    with True x y xy Cons.prems(2) show ?thesis by auto
  next
    case False
    with x y have yx: "y \<le> x" by (simp add: compareItems_valid)
    from Cons.prems have "sorted_wrt (\<lambda>a b. \<exists>x y. i_date a = Some x \<and> i_date b = Some y \<and> x \<le> y) (insertItem a items)"
      by (intro Cons.IH) auto
    moreover have "\<exists>x y. i_date b = Some x \<and> i_date c = Some y \<and> x \<le> y"
      if "c \<in> set (insertItem a items)" for c
      using that Cons.prems(2) x y yx by (auto simp add: set_insertItem)
    ultimately show ?thesis using False by simp
  qed
qed

lemma sorted_sortItems:
  "None \<notin> i_date ` set items \<Longrightarrow>
     sorted_wrt (\<lambda>a b. \<exists>x y. i_date a = Some x \<and> i_date b = Some y \<and> x \<le> y) (sortItems items)"
proof (induction items)
  case Nil
  then show ?case by (simp add: sortItems_def)
next
  case (Cons a items)
  have unfold: "sortItems (a # items) = insertItem a (sortItems items)"
    by (simp add: sortItems_def)
  from Cons.prems have "None \<notin> i_date ` set (a # sortItems items)"
    by (simp add: set_sortItems)
  moreover from Cons have "sorted_wrt (\<lambda>a b. \<exists>x y. i_date a = Some x \<and> i_date b = Some y \<and> x \<le> y) (sortItems items)"
    by simp
  ultimately show ?case unfolding unfold by (rule sorted_insertItem)
qed

lemma filter_date_insertItem:
  "filter (\<lambda>i. i_date i = Some t) (insertItem a items) = filter (\<lambda>i. i_date i = Some t) (a # items)"
proof (induction items)
  case Nil
  then show ?case by simp
next
  case (Cons b items)
  show ?case
  proof (cases "compareItems a b \<le> 0")
    case True
    then show ?thesis by simp
  next
    case False
    then have "\<not> (i_date a = Some t \<and> i_date b = Some t)"
      by (auto simp add: compareItems_def)
    with False Cons show ?thesis by auto
  qed
qed

lemma filter_date_sortItems:
  "filter (\<lambda>i. i_date i = Some t) (sortItems items) = filter (\<lambda>i. i_date i = Some t) items"
proof (induction items)
  case Nil
  then show ?case by (simp add: sortItems_def)
next
  case (Cons a items)
  have "sortItems (a # items) = insertItem a (sortItems items)"
    by (simp add: sortItems_def)
  with Cons show ?case by (simp add: filter_date_insertItem)
qed

text \<open>
  C7. Without a search query, and when every item has a valid date, the output is
  sorted ascending by the time of the items. Items of the same time are not ordered
  by type and id: they keep the order in which they were collected (the shows before
  the events, each in the order of the input).
\<close>

theorem items_sorted_by_time:
  assumes "None \<notin> i_date ` set (calendarItems P c shows events filter_sel [])"
  shows "sorted_wrt (\<lambda>a b. \<exists>x y. i_date a = Some x \<and> i_date b = Some y \<and> x \<le> y)
           (calendarItems P c shows events filter_sel []) \<and>
         (\<forall>t. filter (\<lambda>i. i_date i = Some t) (calendarItems P c shows events filter_sel []) =
              filter (\<lambda>i. i_date i = Some t) (fst (collectItems P c shows events filter_sel)))"
proof -
  have out: "calendarItems P c shows events filter_sel [] =
      sortItems (fst (collectItems P c shows events filter_sel))"
    by (simp add: calendarItems_def Let_def)
  with assms have "None \<notin> i_date ` set (fst (collectItems P c shows events filter_sel))"
    by (simp add: set_sortItems)
  then have "sorted_wrt (\<lambda>a b. \<exists>x y. i_date a = Some x \<and> i_date b = Some y \<and> x \<le> y)
      (sortItems (fst (collectItems P c shows events filter_sel)))"
    by (rule sorted_sortItems)
  moreover have "\<forall>t. filter (\<lambda>i. i_date i = Some t) (sortItems (fst (collectItems P c shows events filter_sel))) =
      filter (\<lambda>i. i_date i = Some t) (fst (collectItems P c shows events filter_sel))"
    by (simp only: filter_date_sortItems) simp
  ultimately show ?thesis
    unfolding out by (rule conjI)
qed

theorem items_sorted_by_time_witness:
  "None \<notin> i_date ` set (calendarItems P0 (clockAt (19877 * 86400000))
      [exampleShow 1 True (Some ''WEEKENDS'') None (Some ''18:30''),
       exampleShow 2 False None None (Some ''2024-06-03T18:30:00'')] [] all_f []) \<and>
   sorted_wrt (\<lambda>a b. \<exists>x y. i_date a = Some x \<and> i_date b = Some y \<and> x \<le> y)
     (calendarItems P0 (clockAt (19877 * 86400000))
      [exampleShow 1 True (Some ''WEEKENDS'') None (Some ''18:30''),
       exampleShow 2 False None None (Some ''2024-06-03T18:30:00'')] [] all_f []) \<and>
   map i_id (calendarItems P0 (clockAt (19877 * 86400000))
      [exampleShow 1 True (Some ''WEEKENDS'') None (Some ''18:30''),
       exampleShow 2 False None None (Some ''2024-06-03T18:30:00'')] [] all_f []) =
     [2, 1, 1, 1, 1, 1, 1, 1, 1]"
proof -
  have valid: "None \<notin> i_date ` set (calendarItems P0 (clockAt (19877 * 86400000))
      [exampleShow 1 True (Some ''WEEKENDS'') None (Some ''18:30''),
       exampleShow 2 False None None (Some ''2024-06-03T18:30:00'')] [] all_f [])"
    by code_simp
  have ids: "map i_id (calendarItems P0 (clockAt (19877 * 86400000))
      [exampleShow 1 True (Some ''WEEKENDS'') None (Some ''18:30''),
       exampleShow 2 False None None (Some ''2024-06-03T18:30:00'')] [] all_f []) =
     [2, 1, 1, 1, 1, 1, 1, 1, 1]"
    by code_simp
  from items_sorted_by_time [OF valid] valid ids show ?thesis by blast
qed

text \<open>
  Two one-off shows at the same time, ids 2 and 1 in this order in the input, stay in
  this order: the tie is not broken by id.
\<close>

theorem equal_times_keep_input_order:
  "map i_id (calendarItems P0 (clockAt (19877 * 86400000))
      [exampleShow 2 False None None (Some ''2024-06-03T18:30:00''),
       exampleShow 1 False None None (Some ''2024-06-03T18:30:00'')] [] all_f []) = [2, 1] \<and>
   map i_date (calendarItems P0 (clockAt (19877 * 86400000))
      [exampleShow 2 False None None (Some ''2024-06-03T18:30:00''),
       exampleShow 1 False None None (Some ''2024-06-03T18:30:00'')] [] all_f []) =
     [Some (19877 * 86400000 + 66600000), Some (19877 * 86400000 + 66600000)]"
  by code_simp

section \<open>One-off entities\<close>


















subsection \<open>The day of the month grid\<close>







section \<open>The clock\<close>

lemma addShow_reads_clock:
  assumes "s_is_recurring s \<and> truthy (s_recurrence_type s)"
  shows "addShow P (items, c) s =
           (pushDates P (s_id s) show_t (showItem s) items
              (projectRecurringDates P (c 0) (s_recurrence_type s) (s_day_of_week s)
                 (s_scheduled_time s)),
            tick c)"
  using assms by (simp add: addShow_def Let_def)

lemma addShow_keeps_clock:
  assumes "\<not> (s_is_recurring s \<and> truthy (s_recurrence_type s))"
  shows "addShow P (items, c) s = (fst (addShow P (items, c0) s), c)"
  using assms by (auto simp add: addShow_def Let_def)

lemma addEvent_reads_clock:
  assumes "e_is_recurring e \<and> truthy (e_recurrence_type e)"
  shows "addEvent P (items, c) e =
           (pushDates P (e_id e) event_t (\<lambda>d. eventItem e d None) items
              (projectRecurringDates P (c 0) (e_recurrence_type e) (e_day_of_week e)
                 (or_else (or_else (e_scheduled_time e) (e_start_datetime e)) (e_start_date e))),
            tick c)"
  using assms by (simp add: addEvent_def Let_def)

lemma addEvent_keeps_clock:
  assumes "\<not> (e_is_recurring e \<and> truthy (e_recurrence_type e))"
  shows "addEvent P (items, c) e = (fst (addEvent P (items, c0) e), c)"
  using assms by (auto simp add: addEvent_def Let_def)

lemma foldl_addShow_clocks:
  assumes "\<forall>n < length (filter (\<lambda>s. s_is_recurring s \<and> truthy (s_recurrence_type s)) showList) + k.
             c1 n = c2 n"
  shows "fst (foldl (addShow P) (items, c1) showList) = fst (foldl (addShow P) (items, c2) showList) \<and>
         (\<forall>n < k. snd (foldl (addShow P) (items, c1) showList) n =
                   snd (foldl (addShow P) (items, c2) showList) n)"
  using assms
proof (induction showList arbitrary: items c1 c2)
  case Nil
  then show ?case by simp
next
  case (Cons s showList)
  show ?case
  proof (cases "s_is_recurring s \<and> truthy (s_recurrence_type s)")
    case True
    from Cons.prems True have head: "c1 0 = c2 0" by simp
    from Cons.prems True have
      "\<forall>n < length (filter (\<lambda>s. s_is_recurring s \<and> truthy (s_recurrence_type s)) showList) + k.
         tick c1 n = tick c2 n"
      by (simp add: tick_def)
    from Cons.IH [OF this] head True show ?thesis
      by (simp add: addShow_reads_clock)
  next
    case False
    from Cons.prems False have
      "\<forall>n < length (filter (\<lambda>s. s_is_recurring s \<and> truthy (s_recurrence_type s)) showList) + k.
         c1 n = c2 n"
      by simp
    from Cons.IH [OF this] show ?thesis
      using addShow_keeps_clock [OF False, of P items c1 c2] addShow_keeps_clock [OF False, of P items c2 c2]
      by simp
  qed
qed

lemma foldl_addEvent_clocks:
  assumes "\<forall>n < length (filter (\<lambda>e. e_is_recurring e \<and> truthy (e_recurrence_type e)) eventList).
             c1 n = c2 n"
  shows "fst (foldl (addEvent P) (items, c1) eventList) = fst (foldl (addEvent P) (items, c2) eventList)"
  using assms
proof (induction eventList arbitrary: items c1 c2)
  case Nil
  then show ?case by simp
next
  case (Cons e eventList)
  show ?case
  proof (cases "e_is_recurring e \<and> truthy (e_recurrence_type e)")
    case True
    from Cons.prems True have head: "c1 0 = c2 0" by simp
    from Cons.prems True have
      "\<forall>n < length (filter (\<lambda>e. e_is_recurring e \<and> truthy (e_recurrence_type e)) eventList).
         tick c1 n = tick c2 n"
      by (simp add: tick_def)
    from Cons.IH [OF this] head True show ?thesis
      by (simp add: addEvent_reads_clock)
  next
    case False
    from Cons.prems False have
      "\<forall>n < length (filter (\<lambda>e. e_is_recurring e \<and> truthy (e_recurrence_type e)) eventList).
         c1 n = c2 n"
      by simp
    from Cons.IH [OF this] show ?thesis
      using addEvent_keeps_clock [OF False, of P items c1 c2] addEvent_keeps_clock [OF False, of P items c2 c2]
      by simp
  qed
qed

text \<open>
  C3. The output is a function of the entity lists, the filter, the search query and
  the clock: each call of the projection for a recurring entity with a recurrence type
  reads the clock once, inside, and no window is passed in. Two runs whose clocks agree
  on as many readings as there are such entities give the same list; an input without
  recurring entities gives the same list under every clock.
\<close>

theorem clock_read_per_recurring_entity:
  assumes "\<forall>n < length (filter (\<lambda>s. s_is_recurring s \<and> truthy (s_recurrence_type s)) shows) +
                 length (filter (\<lambda>e. e_is_recurring e \<and> truthy (e_recurrence_type e)) events).
             c1 n = c2 n"
  shows "calendarItems P c1 shows events filter_sel searchQuery =
           calendarItems P c2 shows events filter_sel searchQuery"
proof -
  obtain i1 d1 i2 d2 where st1: "foldl (addShow P) ([], c1) shows = (i1, d1)"
    and st2: "foldl (addShow P) ([], c2) shows = (i2, d2)"
    by (metis surj_pair)
  from foldl_addShow_clocks [OF assms, of P "[]"] st1 st2
  have same: "i1 = i2"
    and rest: "\<forall>n < length (filter (\<lambda>e. e_is_recurring e \<and> truthy (e_recurrence_type e)) events). d1 n = d2 n"
    by simp_all
  from rest have after_shows: "fst (foldl (addEvent P) (i1, d1) events) = fst (foldl (addEvent P) (i1, d2) events)"
    by (rule foldl_addEvent_clocks)
  from assms have "\<forall>n < length (filter (\<lambda>e. e_is_recurring e \<and> truthy (e_recurrence_type e)) events). c1 n = c2 n"
    by simp
  then have events_only: "fst (foldl (addEvent P) ([], c1) events) = fst (foldl (addEvent P) ([], c2) events)"
    by (rule foldl_addEvent_clocks)
  have "fst (collectItems P c1 shows events filter_sel) = fst (collectItems P c2 shows events filter_sel)"
    using st1 st2 same after_shows events_only
    by (cases filter_sel) (simp_all add: collectItems_def)
  then show ?thesis by (simp add: calendarItems_def)
qed

theorem clock_read_per_recurring_entity_witness:
  "clockAt (19877 * 86400000) 0 = (\<lambda>n. if n = 0 then 19877 * 86400000 else 0) 0 \<and>
   calendarItems P0 (clockAt (19877 * 86400000))
     [exampleShow 1 True (Some ''WEEKENDS'') None (Some ''18:30'')] [] all_f [] =
   calendarItems P0 (\<lambda>n. if n = 0 then 19877 * 86400000 else 0)
     [exampleShow 1 True (Some ''WEEKENDS'') None (Some ''18:30'')] [] all_f []"
proof -
  have "\<forall>n < length (filter (\<lambda>s. s_is_recurring s \<and> truthy (s_recurrence_type s))
                 [exampleShow 1 True (Some ''WEEKENDS'') None (Some ''18:30'')]) +
               length (filter (\<lambda>e. e_is_recurring e \<and> truthy (e_recurrence_type e)) []).
          clockAt (19877 * 86400000) n = (\<lambda>n. if n = 0 then 19877 * 86400000 else 0) n"
    by (simp add: exampleShow_def truthy_def clockAt_def)
  from clock_read_per_recurring_entity [OF this] show ?thesis
    by (simp add: clockAt_def)
qed

text \<open>
  The same Monday show gives other items a day later: the clock is read inside the
  projection, and no caller passes the day in.
\<close>

theorem output_depends_on_clock:
  "map i_date (calendarItems P0 (clockAt (19877 * 86400000))
      [exampleShow 1 True (Some ''SPECIFIC_DAY'') (Some 0) (Some ''18:30'')] [] all_f []) \<noteq>
   map i_date (calendarItems P0 (clockAt (19878 * 86400000))
      [exampleShow 1 True (Some ''SPECIFIC_DAY'') (Some 0) (Some ''18:30'')] [] all_f [])"
  by code_simp

section \<open>Malformed entities\<close>

lemma getDay_range: "getDay P date = Some w \<Longrightarrow> 0 \<le> w \<and> w \<le> 6"
  by (cases date) (auto simp add: getDay_def WeekDay_def)

lemma shouldAdd_day_out_of_range:
  assumes "case dayOfWeek of None \<Rightarrow> True | Some k \<Rightarrow> k < - 1 \<or> 6 < k"
  shows "\<not> shouldAdd (Some ''SPECIFIC_DAY'') dayOfWeek (getDay P date)"
proof (cases dayOfWeek)
  case None
  then show ?thesis by (simp add: shouldAdd_def)
next
  case (Some k)
  with assms have k: "k < - 1 \<or> 6 < k" by simp
  show ?thesis
  proof (cases "getDay P date")
    case None
    with Some show ?thesis by (simp add: shouldAdd_def)
  next
    case (Some w)
    then have "0 \<le> w \<and> w \<le> 6" by (rule getDay_range)
    with k have "w \<noteq> frontendDay k" by (auto simp add: frontendDay_def)
    with Some \<open>dayOfWeek = Some k\<close> show ?thesis by (simp add: shouldAdd_def)
  qed
qed

lemma concat_map_empty: "(\<And>x. f x = []) \<Longrightarrow> concat (map f xs) = []"
  by (induction xs) auto

lemma projectRecurringDates_day_out_of_range:
  assumes "case dayOfWeek of None \<Rightarrow> True | Some k \<Rightarrow> k < - 1 \<or> 6 < k"
  shows "projectRecurringDates P now (Some ''SPECIFIC_DAY'') dayOfWeek scheduledTime = []"
  unfolding projectRecurringDates_def
  by (rule concat_map_empty) (simp add: projectDay_def Let_def shouldAdd_day_out_of_range [OF assms])

lemma addShow_no_recurrence_type:
  assumes "s_is_recurring m" and "\<not> truthy (s_recurrence_type m)"
  shows "addShow P st m = st"
  using assms by (simp add: addShow_def Let_def)

lemma addShow_day_out_of_range:
  assumes "s_is_recurring m" and "s_recurrence_type m = Some ''SPECIFIC_DAY''"
    and "case s_day_of_week m of None \<Rightarrow> True | Some k \<Rightarrow> k < - 1 \<or> 6 < k"
  shows "addShow P st m = (fst st, tick (snd st))"
  using assms
  by (simp add: addShow_def Let_def truthy_def projectRecurringDates_day_out_of_range pushDates_def)

lemma addEvent_no_recurrence_type:
  assumes "e_is_recurring m" and "\<not> truthy (e_recurrence_type m)"
  shows "addEvent P st m = st"
  using assms by (simp add: addEvent_def Let_def)

lemma addEvent_day_out_of_range:
  assumes "e_is_recurring m" and "e_recurrence_type m = Some ''SPECIFIC_DAY''"
    and "case e_day_of_week m of None \<Rightarrow> True | Some k \<Rightarrow> k < - 1 \<or> 6 < k"
  shows "addEvent P st m = (fst st, tick (snd st))"
  using assms
  by (simp add: addEvent_def Let_def truthy_def projectRecurringDates_day_out_of_range pushDates_def)

subsection \<open>The readings that a batch takes from the clock\<close>

lemma foldl_addShow_snd:
  "snd (foldl (addShow P) (items, c) showList) =
     (\<lambda>n. c (n + length (filter (\<lambda>s. s_is_recurring s \<and> truthy (s_recurrence_type s)) showList)))"
proof (induction showList arbitrary: items c)
  case Nil
  then show ?case by simp
next
  case (Cons s showList)
  show ?case
  proof (cases "s_is_recurring s \<and> truthy (s_recurrence_type s)")
    case True
    then show ?thesis
      by (simp add: addShow_reads_clock Cons.IH tick_def)
  next
    case False
    from addShow_keeps_clock [OF False, of P items c c] Cons.IH [of "fst (addShow P (items, c) s)" c] False
    show ?thesis by auto
  qed
qed

lemma foldl_addEvent_snd:
  "snd (foldl (addEvent P) (items, c) eventList) =
     (\<lambda>n. c (n + length (filter (\<lambda>e. e_is_recurring e \<and> truthy (e_recurrence_type e)) eventList)))"
proof (induction eventList arbitrary: items c)
  case Nil
  then show ?case by simp
next
  case (Cons e eventList)
  show ?case
  proof (cases "e_is_recurring e \<and> truthy (e_recurrence_type e)")
    case True
    then show ?thesis
      by (simp add: addEvent_reads_clock Cons.IH tick_def)
  next
    case False
    from addEvent_keeps_clock [OF False, of P items c c] Cons.IH [of "fst (addEvent P (items, c) e)" c] False
    show ?thesis by auto
  qed
qed

lemma foldl_addShow_skip:
  assumes "\<And>st. addShow P st m = (fst st, tick (snd st))"
  shows "foldl (addShow P) (items, c) (xs @ m # ys) =
           foldl (addShow P)
             (items, dropReading (length (filter (\<lambda>s. s_is_recurring s \<and> truthy (s_recurrence_type s)) xs)) c)
             (xs @ ys)"
proof -
  let ?k = "length (filter (\<lambda>s. s_is_recurring s \<and> truthy (s_recurrence_type s)) xs)"
  have "\<forall>n < ?k + 0. c n = dropReading ?k c n"
    by (simp add: dropReading_def)
  from foldl_addShow_clocks [OF this]
  have items: "fst (foldl (addShow P) (items, c) xs) = fst (foldl (addShow P) (items, dropReading ?k c) xs)"
    by simp
  have "tick (snd (foldl (addShow P) (items, c) xs)) = snd (foldl (addShow P) (items, dropReading ?k c) xs)"
    by (simp add: foldl_addShow_snd tick_def dropReading_def)
  with items have "addShow P (foldl (addShow P) (items, c) xs) m =
      foldl (addShow P) (items, dropReading ?k c) xs"
    by (simp add: assms prod_eq_iff)
  then show ?thesis by simp
qed

lemma foldl_addEvent_skip:
  assumes "\<And>st. addEvent P st m = (fst st, tick (snd st))"
  shows "foldl (addEvent P) (items, c) (xs @ m # ys) =
           foldl (addEvent P)
             (items, dropReading (length (filter (\<lambda>e. e_is_recurring e \<and> truthy (e_recurrence_type e)) xs)) c)
             (xs @ ys)"
proof -
  let ?k = "length (filter (\<lambda>e. e_is_recurring e \<and> truthy (e_recurrence_type e)) xs)"
  have "\<forall>n < ?k. c n = dropReading ?k c n"
    by (simp add: dropReading_def)
  from foldl_addEvent_clocks [OF this]
  have items: "fst (foldl (addEvent P) (items, c) xs) = fst (foldl (addEvent P) (items, dropReading ?k c) xs)"
    by simp
  have "tick (snd (foldl (addEvent P) (items, c) xs)) = snd (foldl (addEvent P) (items, dropReading ?k c) xs)"
    by (simp add: foldl_addEvent_snd tick_def dropReading_def)
  with items have "addEvent P (foldl (addEvent P) (items, c) xs) m =
      foldl (addEvent P) (items, dropReading ?k c) xs"
    by (simp add: assms prod_eq_iff)
  then show ?thesis by simp
qed

lemma collectItems_skip_show:
  assumes "\<And>st. addShow P st m = (fst st, tick (snd st))"
  shows "collectItems P c (xs @ m # ys) eventList filter_sel =
           collectItems P
             (if filter_sel \<noteq> events_f
              then dropReading (length (filter (\<lambda>s. s_is_recurring s \<and> truthy (s_recurrence_type s)) xs)) c
              else c)
             (xs @ ys) eventList filter_sel"
  using foldl_addShow_skip [OF assms, of "[]" c xs ys]
  by (cases filter_sel) (simp_all add: collectItems_def)

lemma collectItems_skip_event:
  assumes "\<And>st. addEvent P st m = (fst st, tick (snd st))"
  shows "collectItems P c showList (us @ m # vs) filter_sel =
           collectItems P
             (if filter_sel \<noteq> shows_f
              then dropReading
                     ((if filter_sel = all_f
                       then length (filter (\<lambda>s. s_is_recurring s \<and> truthy (s_recurrence_type s)) showList)
                       else 0) +
                      length (filter (\<lambda>e. e_is_recurring e \<and> truthy (e_recurrence_type e)) us)) c
              else c)
             showList (us @ vs) filter_sel"
proof (cases filter_sel)
  case all_f
  let ?r = "length (filter (\<lambda>s. s_is_recurring s \<and> truthy (s_recurrence_type s)) showList)"
  let ?k = "length (filter (\<lambda>e. e_is_recurring e \<and> truthy (e_recurrence_type e)) us)"
  let ?st = "foldl (addShow P) ([], c) showList"
  have "\<forall>n < ?r + 0. c n = dropReading (?r + ?k) c n"
    by (simp add: dropReading_def)
  from foldl_addShow_clocks [OF this]
  have items: "fst (foldl (addShow P) ([], dropReading (?r + ?k) c) showList) = fst ?st"
    by simp
  have "snd (foldl (addShow P) ([], dropReading (?r + ?k) c) showList) = dropReading ?k (snd ?st)"
    by (simp add: foldl_addShow_snd dropReading_def fun_eq_iff)
  with items have "foldl (addShow P) ([], dropReading (?r + ?k) c) showList =
      (fst ?st, dropReading ?k (snd ?st))"
    by (simp add: prod_eq_iff)
  moreover have "foldl (addEvent P) (fst ?st, snd ?st) (us @ m # vs) =
      foldl (addEvent P) (fst ?st, dropReading ?k (snd ?st)) (us @ vs)"
    by (rule foldl_addEvent_skip [OF assms])
  ultimately show ?thesis
    using all_f by (simp add: collectItems_def)
next
  case shows_f
  then show ?thesis by (simp add: collectItems_def)
next
  case events_f
  with foldl_addEvent_skip [OF assms, of "[]" c us vs] show ?thesis
    by (simp add: collectItems_def)
qed

text \<open>
  C8. A recurring entity, show or event, without a recurrence type, or with the type
  SPECIFIC_DAY and a day of the week that is missing, below -1 or above 6, adds no item
  and stops nothing. The items of the batch are those of the batch without it: under the
  same clock for the entity without a type, which reads no clock; for the day out of
  range the projection is still called and takes one reading of the clock, and the
  batch without the entity gives the same items on the clock without that reading, so
  that every other entity is projected from the reading it had.
\<close>

theorem malformed_entity_contributes_nothing:
  "(s_is_recurring m \<and>
    (\<not> truthy (s_recurrence_type m) \<or>
     (s_recurrence_type m = Some ''SPECIFIC_DAY'' \<and>
      (case s_day_of_week m of None \<Rightarrow> True | Some k \<Rightarrow> k < - 1 \<or> 6 < k))) \<longrightarrow>
      fst (addShow P (items, c) m) = items \<and>
      calendarItems P c (xs @ m # ys) events filter_sel searchQuery =
        calendarItems P
          (if truthy (s_recurrence_type m) \<and> filter_sel \<noteq> events_f
           then dropReading
                  (length (filter (\<lambda>s. s_is_recurring s \<and> truthy (s_recurrence_type s)) xs)) c
           else c)
          (xs @ ys) events filter_sel searchQuery) \<and>
   (e_is_recurring e \<and>
    (\<not> truthy (e_recurrence_type e) \<or>
     (e_recurrence_type e = Some ''SPECIFIC_DAY'' \<and>
      (case e_day_of_week e of None \<Rightarrow> True | Some k \<Rightarrow> k < - 1 \<or> 6 < k))) \<longrightarrow>
      fst (addEvent P (items, c) e) = items \<and>
      calendarItems P c shows (us @ e # vs) filter_sel searchQuery =
        calendarItems P
          (if truthy (e_recurrence_type e) \<and> filter_sel \<noteq> shows_f
           then dropReading
                  ((if filter_sel = all_f
                    then length (filter (\<lambda>s. s_is_recurring s \<and> truthy (s_recurrence_type s)) shows)
                    else 0) +
                   length (filter (\<lambda>e. e_is_recurring e \<and> truthy (e_recurrence_type e)) us)) c
           else c)
          shows (us @ vs) filter_sel searchQuery)"
proof (intro conjI impI)
  assume m: "s_is_recurring m \<and>
    (\<not> truthy (s_recurrence_type m) \<or>
     (s_recurrence_type m = Some ''SPECIFIC_DAY'' \<and>
      (case s_day_of_week m of None \<Rightarrow> True | Some k \<Rightarrow> k < - 1 \<or> 6 < k)))"
  then show "fst (addShow P (items, c) m) = items"
    by (auto simp add: addShow_no_recurrence_type addShow_day_out_of_range)
  show "calendarItems P c (xs @ m # ys) events filter_sel searchQuery =
        calendarItems P
          (if truthy (s_recurrence_type m) \<and> filter_sel \<noteq> events_f
           then dropReading
                  (length (filter (\<lambda>s. s_is_recurring s \<and> truthy (s_recurrence_type s)) xs)) c
           else c)
          (xs @ ys) events filter_sel searchQuery"
  proof (cases "truthy (s_recurrence_type m)")
    case False
    with m have "addShow P st m = st" for st
      by (simp add: addShow_no_recurrence_type)
    then have "collectItems P c (xs @ m # ys) events filter_sel =
        collectItems P c (xs @ ys) events filter_sel"
      by (simp add: collectItems_def Let_def)
    with False show ?thesis by (simp add: calendarItems_def)
  next
    case True
    with m have "addShow P st m = (fst st, tick (snd st))" for st
      by (simp add: addShow_day_out_of_range)
    from collectItems_skip_show [of P m, OF this] True show ?thesis
      by (simp add: calendarItems_def)
  qed
next
  assume e: "e_is_recurring e \<and>
    (\<not> truthy (e_recurrence_type e) \<or>
     (e_recurrence_type e = Some ''SPECIFIC_DAY'' \<and>
      (case e_day_of_week e of None \<Rightarrow> True | Some k \<Rightarrow> k < - 1 \<or> 6 < k)))"
  then show "fst (addEvent P (items, c) e) = items"
    by (auto simp add: addEvent_no_recurrence_type addEvent_day_out_of_range)
  show "calendarItems P c shows (us @ e # vs) filter_sel searchQuery =
        calendarItems P
          (if truthy (e_recurrence_type e) \<and> filter_sel \<noteq> shows_f
           then dropReading
                  ((if filter_sel = all_f
                    then length (filter (\<lambda>s. s_is_recurring s \<and> truthy (s_recurrence_type s)) shows)
                    else 0) +
                   length (filter (\<lambda>e. e_is_recurring e \<and> truthy (e_recurrence_type e)) us)) c
           else c)
          shows (us @ vs) filter_sel searchQuery"
  proof (cases "truthy (e_recurrence_type e)")
    case False
    with e have "addEvent P st e = st" for st
      by (simp add: addEvent_no_recurrence_type)
    then have "collectItems P c shows (us @ e # vs) filter_sel =
        collectItems P c shows (us @ vs) filter_sel"
      by (simp add: collectItems_def Let_def)
    with False show ?thesis by (simp add: calendarItems_def)
  next
    case True
    with e have "addEvent P st e = (fst st, tick (snd st))" for st
      by (simp add: addEvent_day_out_of_range)
    from collectItems_skip_event [of P e, OF this] True show ?thesis
      by (simp add: calendarItems_def)
  qed
qed

text \<open>
  A show with the day 7 between two recurring shows, on a clock that advances by a
  second from one reading to the next: the batch with it gives the items of the batch
  without it on the clock without the second reading, and not its items on the clock as
  it is, since the show after it is projected from the third reading. A recurring event
  without a type changes nothing.
\<close>

theorem malformed_entity_contributes_nothing_witness:
  "s_is_recurring (exampleShow 9 True (Some ''SPECIFIC_DAY'') (Some 7) (Some ''18:30'')) \<and>
   s_recurrence_type (exampleShow 9 True (Some ''SPECIFIC_DAY'') (Some 7) (Some ''18:30'')) =
     Some ''SPECIFIC_DAY'' \<and>
   s_day_of_week (exampleShow 9 True (Some ''SPECIFIC_DAY'') (Some 7) (Some ''18:30'')) = Some 7 \<and>
   calendarItems P0 (clockOf [19877 * 86400000, 19877 * 86400000 + 1000, 19877 * 86400000 + 2000])
     ([exampleShow 1 True (Some ''WEEKENDS'') None (Some ''18:30'')] @
      exampleShow 9 True (Some ''SPECIFIC_DAY'') (Some 7) (Some ''18:30'') #
      [exampleShow 2 True (Some ''SPECIFIC_DAY'') (Some 0) None]) [] all_f [] =
   calendarItems P0
     (dropReading 1 (clockOf [19877 * 86400000, 19877 * 86400000 + 1000, 19877 * 86400000 + 2000]))
     ([exampleShow 1 True (Some ''WEEKENDS'') None (Some ''18:30'')] @
      [exampleShow 2 True (Some ''SPECIFIC_DAY'') (Some 0) None]) [] all_f [] \<and>
   calendarItems P0 (clockOf [19877 * 86400000, 19877 * 86400000 + 1000, 19877 * 86400000 + 2000])
     ([exampleShow 1 True (Some ''WEEKENDS'') None (Some ''18:30'')] @
      exampleShow 9 True (Some ''SPECIFIC_DAY'') (Some 7) (Some ''18:30'') #
      [exampleShow 2 True (Some ''SPECIFIC_DAY'') (Some 0) None]) [] all_f [] \<noteq>
   calendarItems P0 (clockOf [19877 * 86400000, 19877 * 86400000 + 1000, 19877 * 86400000 + 2000])
     ([exampleShow 1 True (Some ''WEEKENDS'') None (Some ''18:30'')] @
      [exampleShow 2 True (Some ''SPECIFIC_DAY'') (Some 0) None]) [] all_f [] \<and>
   e_is_recurring (exampleEvent 8 True None None None None) \<and>
   \<not> truthy (e_recurrence_type (exampleEvent 8 True None None None None)) \<and>
   calendarItems P0 (clockOf [19877 * 86400000]) []
     ([] @ exampleEvent 8 True None None None None #
      [exampleEvent 3 False None None None (Some ''2024-06-03T18:30:00'')]) all_f [] =
   calendarItems P0 (clockOf [19877 * 86400000]) []
     ([] @ [exampleEvent 3 False None None None (Some ''2024-06-03T18:30:00'')]) all_f []"
proof -
  let ?m = "exampleShow 9 True (Some ''SPECIFIC_DAY'') (Some 7) (Some ''18:30'')"
  let ?e = "exampleEvent 8 True None None None None"
  let ?c = "clockOf [19877 * 86400000, 19877 * 86400000 + 1000, 19877 * 86400000 + 2000]"
  have a: "s_is_recurring ?m" and b: "s_recurrence_type ?m = Some ''SPECIFIC_DAY''"
    and d: "s_day_of_week ?m = Some 7"
    by (simp_all add: exampleShow_def)
  from a b d have m: "s_is_recurring ?m \<and>
    (\<not> truthy (s_recurrence_type ?m) \<or>
     (s_recurrence_type ?m = Some ''SPECIFIC_DAY'' \<and>
      (case s_day_of_week ?m of None \<Rightarrow> True | Some k \<Rightarrow> k < - 1 \<or> 6 < k)))"
    by simp
  have f: "e_is_recurring ?e" and g: "\<not> truthy (e_recurrence_type ?e)"
    by (simp_all add: exampleEvent_def truthy_def)
  from f g have e: "e_is_recurring ?e \<and>
    (\<not> truthy (e_recurrence_type ?e) \<or>
     (e_recurrence_type ?e = Some ''SPECIFIC_DAY'' \<and>
      (case e_day_of_week ?e of None \<Rightarrow> True | Some k \<Rightarrow> k < - 1 \<or> 6 < k)))"
    by simp
  have reads: "length (filter (\<lambda>s. s_is_recurring s \<and> truthy (s_recurrence_type s))
      [exampleShow 1 True (Some ''WEEKENDS'') None (Some ''18:30'')]) = 1"
    and typed: "truthy (s_recurrence_type ?m)"
    by (simp_all add: exampleShow_def truthy_def)
  from typed
    malformed_entity_contributes_nothing [where m = ?m and P = P0 and c = ?c
      and xs = "[exampleShow 1 True (Some ''WEEKENDS'') None (Some ''18:30'')]"
      and ys = "[exampleShow 2 True (Some ''SPECIFIC_DAY'') (Some 0) None]"
      and events = "[]" and filter_sel = all_f and searchQuery = "[]",
      THEN conjunct1, THEN mp, OF m, THEN conjunct2, unfolded reads]
  have h: "calendarItems P0 ?c
     ([exampleShow 1 True (Some ''WEEKENDS'') None (Some ''18:30'')] @ ?m #
      [exampleShow 2 True (Some ''SPECIFIC_DAY'') (Some 0) None]) [] all_f [] =
   calendarItems P0 (dropReading 1 ?c)
     ([exampleShow 1 True (Some ''WEEKENDS'') None (Some ''18:30'')] @
      [exampleShow 2 True (Some ''SPECIFIC_DAY'') (Some 0) None]) [] all_f []"
    by simp
  have i: "calendarItems P0 ?c
     ([exampleShow 1 True (Some ''WEEKENDS'') None (Some ''18:30'')] @ ?m #
      [exampleShow 2 True (Some ''SPECIFIC_DAY'') (Some 0) None]) [] all_f [] \<noteq>
   calendarItems P0 ?c
     ([exampleShow 1 True (Some ''WEEKENDS'') None (Some ''18:30'')] @
      [exampleShow 2 True (Some ''SPECIFIC_DAY'') (Some 0) None]) [] all_f []"
    by code_simp
  from g
    malformed_entity_contributes_nothing [where e = ?e and P = P0 and c = "clockOf [19877 * 86400000]"
      and us = "[]" and vs = "[exampleEvent 3 False None None None (Some ''2024-06-03T18:30:00'')]"
      and ?shows = "[]" and filter_sel = all_f and searchQuery = "[]",
      THEN conjunct2, THEN mp, OF e, THEN conjunct2]
  have j: "calendarItems P0 (clockOf [19877 * 86400000]) []
     ([] @ ?e # [exampleEvent 3 False None None None (Some ''2024-06-03T18:30:00'')]) all_f [] =
   calendarItems P0 (clockOf [19877 * 86400000]) []
     ([] @ [exampleEvent 3 False None None None (Some ''2024-06-03T18:30:00'')]) all_f []"
    by simp
  from a b d h i f g j show ?thesis by (intro conjI)
qed

text \<open>
  A SPECIFIC_DAY show with the day -1, outside 0..6, is projected on the Sundays: the
  conversion gives -1 + 1 = 0.
\<close>

theorem day_minus_one_is_sunday:
  "map i_date (calendarItems P0 (clockAt (19877 * 86400000))
      [exampleShow 1 True (Some ''SPECIFIC_DAY'') (Some (- 1)) (Some ''18:30'')] [] all_f []) =
     [Some (19883 * 86400000 + 66600000), Some (19890 * 86400000 + 66600000),
      Some (19897 * 86400000 + 66600000), Some (19904 * 86400000 + 66600000)] \<and>
   WeekDay (19883 * 86400000 + 66600000) = 0"
  by code_simp
section \<open>Date objects in the store\<close>

lemma allocDate_simps [simp]:
  "fst (allocDate v h) = length (st_dates h)"
  "st_dates (snd (allocDate v h)) = st_dates h @ [v]"
  "st_shows (snd (allocDate v h)) = st_shows h"
  "st_events (snd (allocDate v h)) = st_events h"
  by (simp_all add: allocDate_def)

lemma writeDate_simps [simp]:
  "st_dates (writeDate a v h) = (st_dates h)[a := v]"
  "st_shows (writeDate a v h) = st_shows h"
  "st_events (writeDate a v h) = st_events h"
  by (simp_all add: writeDate_def)

lemma extends_refl: "extends h h"
  by (simp add: extends_def)

lemma extends_length:
  assumes "extends h h'"
  shows "length (st_dates h) \<le> length (st_dates h')"
proof -
  from assms have "length (take (length (st_dates h)) (st_dates h')) = length (st_dates h)"
    by (simp only: extends_def)
  then show ?thesis by simp
qed

lemma extends_trans:
  assumes "extends h h'" and "extends h' h''"
  shows "extends h h''"
proof -
  from assms have len: "length (st_dates h) \<le> length (st_dates h')"
    by (intro extends_length)
  from assms have "take (length (st_dates h)) (st_dates h'') =
      take (length (st_dates h)) (take (length (st_dates h')) (st_dates h''))"
    using len by (simp add: min_def)
  also from assms have "\<dots> = st_dates h" by (simp add: extends_def)
  finally show ?thesis using assms by (simp add: extends_def)
qed

lemma extends_readDate:
  assumes "extends h h'" and "a < length (st_dates h)"
  shows "readDate h' a = readDate h a"
proof -
  from assms(1) have len: "length (st_dates h) \<le> length (st_dates h')"
    by (rule extends_length)
  from assms have "st_dates h ! a = take (length (st_dates h)) (st_dates h') ! a"
    by (simp add: extends_def)
  also from assms have "\<dots> = st_dates h' ! a" by simp
  finally show ?thesis using assms len by (simp add: readDate_def)
qed

lemma extends_alloc: "extends h (snd (allocDate v h))"
  by (simp add: extends_def)

lemma extends_write:
  assumes "extends h h'" and "length (st_dates h) \<le> a"
  shows "extends h (writeDate a v h')"
  using assms by (simp add: extends_def)

lemma readDate_alloc: "readDate (snd (allocDate v h)) (length (st_dates h)) = v"
  by (simp add: readDate_def)

lemma readDate_write:
  "a < length (st_dates h) \<Longrightarrow> readDate (writeDate a v h) a = v"
  by (simp add: readDate_def)

text \<open>The scheduled time on the object \<open>date\<close>: its value is set as in the value model.\<close>

lemma applyScheduledTime_h_spec:
  assumes "date < length (st_dates h)" and "extends h0 h" and "length (st_dates h0) \<le> date"
  shows "readDate (applyScheduledTime_h P scheduledTime date h) date =
           applyScheduledTime P scheduledTime (readDate h date) \<and>
         extends h0 (applyScheduledTime_h P scheduledTime date h) \<and>
         length (st_dates h) \<le> length (st_dates (applyScheduledTime_h P scheduledTime date h))"
proof (cases scheduledTime)
  case None
  with assms show ?thesis
    by (simp add: applyScheduledTime_h_def applyScheduledTime_def)
next
  case (Some s)
  show ?thesis
  proof (cases "s = []")
    case True
    with Some assms show ?thesis
      by (simp add: applyScheduledTime_h_def applyScheduledTime_def)
  next
    case nonempty: False
    show ?thesis
    proof (cases "CHR '':'' \<in> set s \<and> length s \<le> 8")
      case True
      with Some nonempty assms show ?thesis
        by (simp add: applyScheduledTime_h_def applyScheduledTime_def Let_def readDate_write
            extends_write)
    next
      case False
      let ?h1 = "snd (allocDate (dateParse P s) h)"
      have time: "readDate ?h1 (length (st_dates h)) = dateParse P s"
        by (rule readDate_alloc)
      have ext1: "extends h0 ?h1"
        using assms(2) extends_alloc by (rule extends_trans)
      have date1: "readDate ?h1 date = readDate h date"
        using extends_alloc assms(1) by (rule extends_readDate)
      have len1: "date < length (st_dates ?h1)"
        using assms(1) by simp
      show ?thesis
      proof (cases "dateParse P s")
        case None
        with Some nonempty False time ext1 date1 show ?thesis
          by (auto simp add: applyScheduledTime_h_def applyScheduledTime_def Let_def)
      next
        case (Some tv)
        with \<open>scheduledTime = Some s\<close> nonempty False time ext1 date1 len1 assms(3) show ?thesis
          by (auto simp add: applyScheduledTime_h_def applyScheduledTime_def Let_def readDate_write
              extends_write)
      qed
    qed
  qed
qed

lemma projectDay_h_spec:
  assumes "now < length (st_dates h)" and "readDate h now = Some nowv"
  shows "\<exists>new h'. projectDay_h P now rt dow st (dates, h) d = (dates @ new, h') \<and>
           extends h h' \<and>
           map (readDate h') new = projectDay P nowv rt dow st d \<and>
           (\<forall>a \<in> set new. length (st_dates h) \<le> a \<and> a < length (st_dates h')) \<and>
           distinct new"
proof -
  let ?date = "length (st_dates h)"
  let ?h1 = "snd (allocDate (readDate h now) h)"
  let ?D = "setDate_plus P (Some nowv) (int d)"
  let ?h2 = "writeDate ?date (setDate_plus P (readDate ?h1 ?date) (int d)) ?h1"
  have r1: "readDate ?h1 ?date = Some nowv"
    using assms(2) by (simp add: readDate_alloc)
  have len2: "?date < length (st_dates ?h2)"
    by simp
  have r2: "readDate ?h2 ?date = ?D"
    using r1 by (simp add: readDate_write)
  have ext2: "extends h ?h2"
    using extends_alloc by (rule extends_write) simp
  show ?thesis
  proof (cases "shouldAdd rt dow (getDay P ?D)")
    case False
    with r2 ext2 show ?thesis
      by (simp add: projectDay_h_def projectDay_def Let_def)
  next
    case True
    let ?h3 = "applyScheduledTime_h P st ?date ?h2"
    let ?copy = "length (st_dates ?h3)"
    let ?h4 = "snd (allocDate (readDate ?h3 ?date) ?h3)"
    from applyScheduledTime_h_spec [OF len2 ext2, of P st]
    have r3: "readDate ?h3 ?date = applyScheduledTime P st ?D"
      and ext3: "extends h ?h3"
      by (simp_all add: r2)
    from ext3 extends_alloc have ext4: "extends h ?h4"
      by (rule extends_trans)
    have r4: "readDate ?h4 ?copy = applyScheduledTime P st ?D"
      using r3 by (simp add: readDate_alloc)
    from ext3 have "?date \<le> ?copy" by (rule extends_length)
    moreover have "?copy < length (st_dates ?h4)" by simp
    moreover from True r2 have "projectDay_h P now rt dow st (dates, h) d = (dates @ [?copy], ?h4)"
      by (simp add: projectDay_h_def Let_def)
    moreover from True have "projectDay P nowv rt dow st d = [applyScheduledTime P st ?D]"
      by (simp add: projectDay_def Let_def)
    ultimately show ?thesis using ext4 r4
      by (intro exI [of _ "[?copy]"] exI [of _ ?h4]) simp
  qed
qed

lemma foldl_projectDay_h_spec:
  assumes "now < length (st_dates h)" and "readDate h now = Some nowv"
  shows "\<exists>new h'. foldl (projectDay_h P now rt dow st) (dates, h) ds = (dates @ new, h') \<and>
           extends h h' \<and>
           map (readDate h') new = concat (map (projectDay P nowv rt dow st) ds) \<and>
           (\<forall>a \<in> set new. length (st_dates h) \<le> a \<and> a < length (st_dates h')) \<and>
           distinct new"
  using assms
proof (induction ds arbitrary: dates h)
  case Nil
  then show ?case by (simp add: extends_refl)
next
  case (Cons d ds)
  from projectDay_h_spec [OF Cons.prems, of P rt dow st dates d]
  obtain new1 h1 where step: "projectDay_h P now rt dow st (dates, h) d = (dates @ new1, h1)"
    and ext1: "extends h h1"
    and val1: "map (readDate h1) new1 = projectDay P nowv rt dow st d"
    and rng1: "\<forall>a \<in> set new1. length (st_dates h) \<le> a \<and> a < length (st_dates h1)"
    and dist1: "distinct new1"
    by blast
  from ext1 have len1: "length (st_dates h) \<le> length (st_dates h1)"
    by (rule extends_length)
  with Cons.prems have now1: "now < length (st_dates h1)" by simp
  from ext1 Cons.prems have nowv1: "readDate h1 now = Some nowv"
    by (simp add: extends_readDate)
  from Cons.IH [OF now1 nowv1, of "dates @ new1"]
  obtain new2 h2 where rest: "foldl (projectDay_h P now rt dow st) (dates @ new1, h1) ds = ((dates @ new1) @ new2, h2)"
    and ext2: "extends h1 h2"
    and val2: "map (readDate h2) new2 = concat (map (projectDay P nowv rt dow st) ds)"
    and rng2: "\<forall>a \<in> set new2. length (st_dates h1) \<le> a \<and> a < length (st_dates h2)"
    and dist2: "distinct new2"
    by blast
  from ext2 have len2: "length (st_dates h1) \<le> length (st_dates h2)"
    by (rule extends_length)
  have "map (readDate h2) new1 = map (readDate h1) new1"
    using rng1 ext2 by (intro map_cong refl extends_readDate) auto
  with val1 val2 have val: "map (readDate h2) (new1 @ new2) =
      concat (map (projectDay P nowv rt dow st) (d # ds))"
    by simp
  from rng1 rng2 len1 len2 have rng: "\<forall>a \<in> set (new1 @ new2). length (st_dates h) \<le> a \<and> a < length (st_dates h2)"
    by fastforce
  from rng1 rng2 dist1 dist2 have dist: "distinct (new1 @ new2)"
    by fastforce
  from ext1 ext2 have "extends h h2" by (rule extends_trans)
  with step rest val rng dist show ?case
    by (intro exI [of _ "new1 @ new2"] exI [of _ h2]) simp
qed

lemma projectRecurringDates_h_spec:
  "extends h (snd (projectRecurringDates_h P nowValue rt dow st h)) \<and>
   map (readDate (snd (projectRecurringDates_h P nowValue rt dow st h)))
     (fst (projectRecurringDates_h P nowValue rt dow st h)) =
     projectRecurringDates P nowValue rt dow st \<and>
   (\<forall>a \<in> set (fst (projectRecurringDates_h P nowValue rt dow st h)).
      length (st_dates h) \<le> a \<and>
      a < length (st_dates (snd (projectRecurringDates_h P nowValue rt dow st h)))) \<and>
   distinct (fst (projectRecurringDates_h P nowValue rt dow st h))"
proof -
  let ?h0 = "snd (allocDate (Some nowValue) h)"
  have "length (st_dates h) < length (st_dates ?h0)" by simp
  moreover have "readDate ?h0 (length (st_dates h)) = Some nowValue"
    by (rule readDate_alloc)
  ultimately obtain new h' where
    run: "foldl (projectDay_h P (length (st_dates h)) rt dow st) ([], ?h0) [0..<28] = ([] @ new, h')"
    and ext: "extends ?h0 h'"
    and val: "map (readDate h') new = concat (map (projectDay P nowValue rt dow st) [0..<28])"
    and rng: "\<forall>a \<in> set new. length (st_dates ?h0) \<le> a \<and> a < length (st_dates h')"
    and dist: "distinct new"
    using foldl_projectDay_h_spec [of "length (st_dates h)" ?h0 nowValue P rt dow st "[]" "[0..<28]"]
    by blast
  from run have eq: "projectRecurringDates_h P nowValue rt dow st h = (new, h')"
    by (simp add: projectRecurringDates_h_def Let_def)
  from extends_alloc ext have "extends h h'" by (rule extends_trans)
  with val rng dist show ?thesis
    unfolding eq projectRecurringDates_def by auto
qed

section \<open>Items in the store\<close>

lemma itemDates_showItem: "itemDates (showItem s a) = [a]"
  by (simp add: itemDates_def showItem_def)

lemma itemDates_eventItem:
  "itemDates (eventItem e a x) = a # (case x of None \<Rightarrow> [] | Some b \<Rightarrow> [b])"
  by (simp add: itemDates_def eventItem_def)

lemma itemValue_showItem: "itemValue h (showItem s a) = showItem s (readDate h a)"
  by (simp add: itemValue_def showItem_def)

lemma itemValue_eventItem:
  "itemValue h (eventItem e a x) = eventItem e (readDate h a) (map_option (readDate h) x)"
  by (simp add: itemValue_def eventItem_def)

lemma itemValue_extends:
  assumes "extends h h'" and "\<forall>a \<in> set (itemDates i). a < length (st_dates h)"
  shows "itemValue h' i = itemValue h i"
proof -
  from assms have "readDate h' (i_date i) = readDate h (i_date i)"
    by (simp add: itemDates_def extends_readDate)
  moreover from assms have "map_option (readDate h') (i_endDate i) = map_option (readDate h) (i_endDate i)"
    by (cases "i_endDate i") (simp_all add: itemDates_def extends_readDate)
  ultimately show ?thesis by (simp add: itemValue_def)
qed

lemma map_itemValue_extends:
  assumes "extends h h'"
    and "\<forall>a \<in> set (concat (map itemDates items)). a < length (st_dates h)"
  shows "map (itemValue h') items = map (itemValue h) items"
  using assms by (intro map_cong refl itemValue_extends) auto

lemma sameEntityDay_h_value:
  "sameEntityDay_h P h idv ty d i = sameEntityDay P idv ty (readDate h d) (itemValue h i)"
  by (simp add: sameEntityDay_h_def sameEntityDay_def itemValue_def)

lemma pushDate_h_value:
  assumes "\<And>d. itemValue h (mk d) = mk' (readDate h d)"
  shows "map (itemValue h) (pushDate_h P h idv ty mk items d) =
           pushDate P idv ty mk' (map (itemValue h) items) (readDate h d)"
proof -
  have "find (sameEntityDay_h P h idv ty d) items = None \<longleftrightarrow>
      find (sameEntityDay P idv ty (readDate h d)) (map (itemValue h) items) = None"
    by (auto simp add: find_None_iff sameEntityDay_h_value)
  then show ?thesis
    by (simp add: pushDate_h_def pushDate_def assms)
qed

lemma pushDates_h_value:
  assumes "\<And>d. itemValue h (mk d) = mk' (readDate h d)"
  shows "map (itemValue h) (pushDates_h P h idv ty mk items ds) =
           pushDates P idv ty mk' (map (itemValue h) items) (map (readDate h) ds)"
  unfolding pushDates_h_def pushDates_def
proof (induction ds arbitrary: items)
  case Nil
  then show ?case by simp
next
  case (Cons d ds)
  have "map (itemValue h) (pushDate_h P h idv ty mk items d) =
      pushDate P idv ty mk' (map (itemValue h) items) (readDate h d)"
    using assms by (rule pushDate_h_value)
  with Cons.IH [of "pushDate_h P h idv ty mk items d"] show ?case by simp
qed

lemma pushDates_h_dates:
  assumes "\<And>d. itemDates (mk d) = [d]"
  shows "distinct (concat (map itemDates items)) \<Longrightarrow> distinct ds \<Longrightarrow>
         set ds \<inter> set (concat (map itemDates items)) = {} \<Longrightarrow>
           distinct (concat (map itemDates (pushDates_h P h idv ty mk items ds))) \<and>
           set (concat (map itemDates (pushDates_h P h idv ty mk items ds))) \<subseteq>
             set (concat (map itemDates items)) \<union> set ds"
  unfolding pushDates_h_def
proof (induction ds arbitrary: items)
  case Nil
  then show ?case by simp
next
  case (Cons d ds)
  let ?items1 = "pushDate_h P h idv ty mk items d"
  have sub: "set (concat (map itemDates ?items1)) \<subseteq> set (concat (map itemDates items)) \<union> {d}"
    by (auto simp add: pushDate_h_def assms)
  from Cons.prems have dist1: "distinct (concat (map itemDates ?items1))"
    by (auto simp add: pushDate_h_def assms)
  from Cons.prems sub have disj1: "set ds \<inter> set (concat (map itemDates ?items1)) = {}"
    by auto
  from Cons.prems have "distinct ds" by simp
  from Cons.IH [OF dist1 this disj1]
  have dist2: "distinct (concat (map itemDates (foldl (pushDate_h P h idv ty mk) ?items1 ds)))"
    and sub2: "set (concat (map itemDates (foldl (pushDate_h P h idv ty mk) ?items1 ds))) \<subseteq>
      set (concat (map itemDates ?items1)) \<union> set ds"
    by blast+
  have "A \<subseteq> D \<union> insert d C" if "A \<subseteq> B \<union> C" and "B \<subseteq> D \<union> {d}" for A B C D :: "nat set"
    using that by blast
  from this [OF sub2 sub] dist2 show ?case by simp
qed

lemma simulates_append:
  assumes sim: "simulates h0 (items, c, h) (pitems, c)"
    and ext: "extends h h1"
    and fresh: "\<forall>a \<in> set (itemDates i). length (st_dates h) \<le> a \<and> a < length (st_dates h1)"
    and dist: "distinct (itemDates i)"
  shows "simulates h0 (items @ [i], c, h1) (pitems @ [itemValue h1 i], c)"
proof -
  from sim have ext0: "extends h0 h"
    and val: "map (itemValue h) items = pitems"
    and rng: "\<forall>a \<in> set (concat (map itemDates items)). length (st_dates h0) \<le> a \<and> a < length (st_dates h)"
    and old: "distinct (concat (map itemDates items))"
    by (simp_all add: simulates_def)
  from ext0 have len0: "length (st_dates h0) \<le> length (st_dates h)" by (rule extends_length)
  from ext have len1: "length (st_dates h) \<le> length (st_dates h1)" by (rule extends_length)
  from ext0 ext have "extends h0 h1" by (rule extends_trans)
  moreover from rng ext val have "map (itemValue h1) items = pitems"
    using map_itemValue_extends [of h h1 items] by simp
  moreover from rng fresh len0 len1
  have "\<forall>a \<in> set (concat (map itemDates (items @ [i]))). length (st_dates h0) \<le> a \<and> a < length (st_dates h1)"
    by fastforce
  moreover from rng fresh old dist have "distinct (concat (map itemDates (items @ [i])))"
    by fastforce
  ultimately show ?thesis by (simp add: simulates_def)
qed

lemma simulates_push:
  assumes sim: "simulates h0 (items, c, h) (pitems, c)"
    and dates: "\<And>d. itemDates (mk d) = [d]"
    and vals: "\<And>h d. itemValue h (mk d) = mk' (readDate h d)"
  shows "simulates h0
           (pushDates_h P (snd (projectRecurringDates_h P (c 0) rt dow st h)) idv ty mk items
              (fst (projectRecurringDates_h P (c 0) rt dow st h)),
            tick c, snd (projectRecurringDates_h P (c 0) rt dow st h))
           (pushDates P idv ty mk' pitems (projectRecurringDates P (c 0) rt dow st), tick c)"
proof -
  let ?r = "projectRecurringDates_h P (c 0) rt dow st h"
  from sim have ext0: "extends h0 h"
    and val: "map (itemValue h) items = pitems"
    and rng: "\<forall>a \<in> set (concat (map itemDates items)). length (st_dates h0) \<le> a \<and> a < length (st_dates h)"
    and old: "distinct (concat (map itemDates items))"
    by (simp_all add: simulates_def)
  from projectRecurringDates_h_spec [of h P "c 0" rt dow st]
  have ext: "extends h (snd ?r)"
    and new_val: "map (readDate (snd ?r)) (fst ?r) = projectRecurringDates P (c 0) rt dow st"
    and new_rng: "\<forall>a \<in> set (fst ?r). length (st_dates h) \<le> a \<and> a < length (st_dates (snd ?r))"
    and new_dist: "distinct (fst ?r)"
    by blast+
  from ext0 have len0: "length (st_dates h0) \<le> length (st_dates h)" by (rule extends_length)
  from ext have len1: "length (st_dates h) \<le> length (st_dates (snd ?r))" by (rule extends_length)
  from rng new_rng have disj: "set (fst ?r) \<inter> set (concat (map itemDates items)) = {}"
    by fastforce
  from pushDates_h_dates [of mk items "fst ?r" P "snd ?r" idv ty, OF dates old new_dist disj]
  have dist: "distinct (concat (map itemDates (pushDates_h P (snd ?r) idv ty mk items (fst ?r))))"
    and sub: "set (concat (map itemDates (pushDates_h P (snd ?r) idv ty mk items (fst ?r)))) \<subseteq>
      set (concat (map itemDates items)) \<union> set (fst ?r)"
    by blast+
  from sub rng new_rng len0 len1
  have "\<forall>a \<in> set (concat (map itemDates (pushDates_h P (snd ?r) idv ty mk items (fst ?r)))).
      length (st_dates h0) \<le> a \<and> a < length (st_dates (snd ?r))"
    by fastforce
  moreover from rng ext val have "map (itemValue (snd ?r)) items = pitems"
    using map_itemValue_extends [of h "snd ?r" items] by simp
  then have "map (itemValue (snd ?r)) (pushDates_h P (snd ?r) idv ty mk items (fst ?r)) =
      pushDates P idv ty mk' pitems (projectRecurringDates P (c 0) rt dow st)"
    using pushDates_h_value [of "snd ?r" mk mk' P idv ty items "fst ?r", OF vals] new_val by simp
  moreover from ext0 ext have "extends h0 (snd ?r)" by (rule extends_trans)
  ultimately show ?thesis using dist by (simp add: simulates_def)
qed

lemma simulates_addShow:
  assumes "simulates h0 st pst"
  shows "simulates h0 (addShow_h P st s) (addShow P pst s)"
proof -
  obtain items c h where st: "st = (items, c, h)"
    by (metis prod_cases3)
  with assms obtain pitems where pst: "pst = (pitems, c)"
    by (cases pst) (simp add: simulates_def)
  from assms st pst have sim: "simulates h0 (items, c, h) (pitems, c)"
    by simp
  show ?thesis
  proof (cases "s_is_recurring s")
    case False
    show ?thesis
    proof (cases "truthy (s_scheduled_time s)")
      case True
      let ?v = "newDate P (s_scheduled_time s)"
      let ?h1 = "snd (allocDate ?v h)"
      let ?i = "showItem s (length (st_dates h))"
      have "simulates h0 (items @ [?i], c, ?h1) (pitems @ [itemValue ?h1 ?i], c)"
        using sim extends_alloc by (rule simulates_append) (simp_all add: itemDates_showItem)
      with False True st pst show ?thesis
        by (simp add: addShow_h_def addShow_def Let_def itemValue_showItem readDate_alloc)
    next
      case no_time: False
      with False sim st pst show ?thesis
        by (simp add: addShow_h_def addShow_def Let_def)
    qed
  next
    case True
    show ?thesis
    proof (cases "truthy (s_recurrence_type s)")
      case no_type: False
      with True sim st pst show ?thesis
        by (simp add: addShow_h_def addShow_def Let_def)
    next
      case has_type: True
      from simulates_push [OF sim, of "showItem s" "showItem s" P
          "s_recurrence_type s" "s_day_of_week s" "s_scheduled_time s" "s_id s" show_t]
      have "simulates h0
           (pushDates_h P (snd (projectRecurringDates_h P (c 0) (s_recurrence_type s)
                 (s_day_of_week s) (s_scheduled_time s) h)) (s_id s) show_t (showItem s) items
              (fst (projectRecurringDates_h P (c 0) (s_recurrence_type s)
                 (s_day_of_week s) (s_scheduled_time s) h)),
            tick c, snd (projectRecurringDates_h P (c 0) (s_recurrence_type s)
                 (s_day_of_week s) (s_scheduled_time s) h))
           (pushDates P (s_id s) show_t (showItem s) pitems
              (projectRecurringDates P (c 0) (s_recurrence_type s) (s_day_of_week s)
                 (s_scheduled_time s)), tick c)"
        by (simp add: itemDates_showItem itemValue_showItem)
      with True has_type st pst show ?thesis
        by (simp add: addShow_h_def addShow_def Let_def)
    qed
  qed
qed

lemma simulates_addEvent:
  assumes "simulates h0 st pst"
  shows "simulates h0 (addEvent_h P st e) (addEvent P pst e)"
proof -
  obtain items c h where st: "st = (items, c, h)"
    by (metis prod_cases3)
  with assms obtain pitems where pst: "pst = (pitems, c)"
    by (cases pst) (simp add: simulates_def)
  from assms st pst have sim: "simulates h0 (items, c, h) (pitems, c)"
    by simp
  let ?start = "or_else (e_start_datetime e) (e_start_date e)"
  let ?end = "or_else (e_end_datetime e) (e_end_date e)"
  show ?thesis
  proof (cases "e_is_recurring e")
    case False
    show ?thesis
    proof (cases "truthy ?start")
      case True
      let ?ha = "snd (allocDate (newDate P ?start) h)"
      let ?hb = "snd (allocDate (newDate P ?end) ?ha)"
      let ?a = "length (st_dates h)"
      show ?thesis
      proof (cases "truthy ?end")
        case with_end: True
        let ?i = "eventItem e ?a (Some (Suc ?a))"
        have "extends h ?hb"
          using extends_alloc extends_alloc by (rule extends_trans)
        with sim have "simulates h0 (items @ [?i], c, ?hb) (pitems @ [itemValue ?hb ?i], c)"
          by (rule simulates_append) (simp_all add: itemDates_eventItem)
        moreover have "readDate ?hb ?a = newDate P ?start"
          by (simp add: readDate_def nth_append)
        moreover have "readDate ?hb (Suc ?a) = newDate P ?end"
          by (simp add: readDate_def nth_append)
        ultimately show ?thesis using False True with_end st pst
          by (simp add: addEvent_h_def addEvent_def Let_def itemValue_eventItem)
      next
        case no_end: False
        let ?i = "eventItem e ?a None"
        have "simulates h0 (items @ [?i], c, ?ha) (pitems @ [itemValue ?ha ?i], c)"
          using sim extends_alloc by (rule simulates_append) (simp_all add: itemDates_eventItem)
        with False True no_end st pst show ?thesis
          by (simp add: addEvent_h_def addEvent_def Let_def itemValue_eventItem readDate_alloc)
      qed
    next
      case no_time: False
      with False sim st pst show ?thesis
        by (simp add: addEvent_h_def addEvent_def Let_def)
    qed
  next
    case True
    show ?thesis
    proof (cases "truthy (e_recurrence_type e)")
      case no_type: False
      with True sim st pst show ?thesis
        by (simp add: addEvent_h_def addEvent_def Let_def)
    next
      case has_type: True
      let ?time = "or_else (or_else (e_scheduled_time e) (e_start_datetime e)) (e_start_date e)"
      from simulates_push [OF sim, of "\<lambda>d. eventItem e d None" "\<lambda>d. eventItem e d None" P
          "e_recurrence_type e" "e_day_of_week e" ?time "e_id e" event_t]
      have "simulates h0
           (pushDates_h P (snd (projectRecurringDates_h P (c 0) (e_recurrence_type e)
                 (e_day_of_week e) ?time h)) (e_id e) event_t (\<lambda>d. eventItem e d None) items
              (fst (projectRecurringDates_h P (c 0) (e_recurrence_type e)
                 (e_day_of_week e) ?time h)),
            tick c, snd (projectRecurringDates_h P (c 0) (e_recurrence_type e)
                 (e_day_of_week e) ?time h))
           (pushDates P (e_id e) event_t (\<lambda>d. eventItem e d None) pitems
              (projectRecurringDates P (c 0) (e_recurrence_type e) (e_day_of_week e) ?time),
            tick c)"
        by (simp add: itemDates_eventItem itemValue_eventItem)
      with True has_type st pst show ?thesis
        by (simp add: addEvent_h_def addEvent_def Let_def)
    qed
  qed
qed

lemma simulates_foldl_addShow:
  "simulates h0 st pst \<Longrightarrow>
     simulates h0 (foldl (addShow_h P) st showList) (foldl (addShow P) pst showList)"
  by (induction showList arbitrary: st pst) (simp_all add: simulates_addShow)

lemma simulates_foldl_addEvent:
  "simulates h0 st pst \<Longrightarrow>
     simulates h0 (foldl (addEvent_h P) st eventList) (foldl (addEvent P) pst eventList)"
  by (induction eventList arbitrary: st pst) (simp_all add: simulates_addEvent)

lemma simulates_collectItems:
  "simulates h (collectItems_h P c filter_sel h)
     (collectItems P c (st_shows h) (st_events h) filter_sel)"
proof -
  have start: "simulates h ([], c, h) ([], c)"
    by (simp add: simulates_def extends_refl)
  then have "simulates h (foldl (addShow_h P) ([], c, h) (st_shows h))
      (foldl (addShow P) ([], c) (st_shows h))"
    by (rule simulates_foldl_addShow)
  with start show ?thesis
    by (simp add: collectItems_h_def collectItems_def Let_def simulates_foldl_addEvent)
qed

section \<open>Sorting and searching in the store\<close>

lemma compareItems_h_value:
  "compareItems_h h a b = compareItems (itemValue h a) (itemValue h b)"
  by (simp add: compareItems_h_def compareItems_def itemValue_def split: option.splits)

lemma map_insertItem_h:
  "map (itemValue h) (insertItem_h h a items) = insertItem (itemValue h a) (map (itemValue h) items)"
  by (induction items) (simp_all add: compareItems_h_value)

lemma map_sortItems_h:
  "map (itemValue h) (sortItems_h h items) = sortItems (map (itemValue h) items)"
  by (induction items) (simp_all add: sortItems_h_def sortItems_def map_insertItem_h)

lemma set_insertItem_h: "set (insertItem_h h a items) = insert a (set items)"
  by (induction items) auto

lemma distinct_dates_insertItem_h:
  "distinct (concat (map itemDates (insertItem_h h a items))) \<longleftrightarrow>
     distinct (concat (map itemDates (a # items)))"
  by (induction items) (auto simp add: set_insertItem_h)

lemma set_sortItems_h: "set (sortItems_h h items) = set items"
  by (induction items) (simp_all add: sortItems_h_def set_insertItem_h)

lemma distinct_dates_sortItems_h:
  "distinct (concat (map itemDates (sortItems_h h items))) \<longleftrightarrow>
     distinct (concat (map itemDates items))"
proof (induction items)
  case Nil
  then show ?case by (simp add: sortItems_h_def)
next
  case (Cons a items)
  have "sortItems_h h (a # items) = insertItem_h h a (sortItems_h h items)"
    by (simp add: sortItems_h_def)
  with Cons show ?case
    by (simp add: distinct_dates_insertItem_h set_sortItems_h)
qed

lemma distinct_dates_filter:
  "distinct (concat (map itemDates items)) \<Longrightarrow>
     distinct (concat (map itemDates (filter keep items)))"
  by (induction items) auto

lemma matchesSearch_itemValue:
  "matchesSearch P searchQuery (itemValue h i) = matchesSearch P searchQuery i"
  by (simp add: matchesSearch_def itemValue_def)

lemma map_filter_matchesSearch:
  "map (itemValue h) (filter (matchesSearch P searchQuery) items) =
     filter (matchesSearch P searchQuery) (map (itemValue h) items)"
  by (induction items) (simp_all add: matchesSearch_itemValue)

text \<open>
  C10. A projection changes none of its inputs. In the store, the arrays of shows and
  events are after the call what they were before it, and so is every Date object that
  existed before it; every Date object that an emitted item holds was allocated during
  the call, and no two fields of the emitted items hold the same object. (The other
  fields of an item are strings, numbers and booleans, copied by value.) The values of
  the items are those of the value model.
\<close>

theorem projection_leaves_inputs:
  assumes "calendarItems_h P c filter_sel searchQuery h = (items, h')"
  shows "st_shows h' = st_shows h \<and> st_events h' = st_events h \<and>
         take (length (st_dates h)) (st_dates h') = st_dates h \<and>
         (\<forall>a \<in> set (concat (map itemDates items)).
            length (st_dates h) \<le> a \<and> a < length (st_dates h')) \<and>
         distinct (concat (map itemDates items)) \<and>
         map (itemValue h') items =
           calendarItems P c (st_shows h) (st_events h) filter_sel searchQuery"
proof -
  let ?collected = "fst (collectItems_h P c filter_sel h)"
  from assms have h': "h' = snd (snd (collectItems_h P c filter_sel h))"
    and items: "items = (if searchQuery \<noteq> [] then filter (matchesSearch P searchQuery) ?collected
                         else sortItems_h h' ?collected)"
    by (auto simp add: calendarItems_h_def Let_def)
  from simulates_collectItems [of h P c filter_sel] h'
  have ext: "extends h h'"
    and val: "map (itemValue h') ?collected =
      fst (collectItems P c (st_shows h) (st_events h) filter_sel)"
    and rng: "\<forall>a \<in> set (concat (map itemDates ?collected)).
      length (st_dates h) \<le> a \<and> a < length (st_dates h')"
    and dist: "distinct (concat (map itemDates ?collected))"
    by (simp_all add: simulates_def)
  have sub: "set items \<subseteq> set ?collected"
    by (auto simp add: items set_sortItems_h)
  from rng sub have rng': "\<forall>a \<in> set (concat (map itemDates items)).
      length (st_dates h) \<le> a \<and> a < length (st_dates h')"
    by fastforce
  from dist have dist': "distinct (concat (map itemDates items))"
    by (simp add: items distinct_dates_sortItems_h distinct_dates_filter)
  from val have val': "map (itemValue h') items =
      calendarItems P c (st_shows h) (st_events h) filter_sel searchQuery"
    by (simp add: items calendarItems_def Let_def map_sortItems_h map_filter_matchesSearch)
  from ext rng' dist' val' show ?thesis
    by (simp add: extends_def)
qed

theorem projection_leaves_inputs_witness:
  "st_shows (snd (calendarItems_h P0 (clockAt (19877 * 86400000)) all_f [] exampleStore)) =
     st_shows exampleStore \<and>
   take 1 (st_dates (snd (calendarItems_h P0 (clockAt (19877 * 86400000)) all_f [] exampleStore))) =
     [Some 0] \<and>
   distinct (concat (map itemDates
     (fst (calendarItems_h P0 (clockAt (19877 * 86400000)) all_f [] exampleStore)))) \<and>
   map i_date (fst (calendarItems_h P0 (clockAt (19877 * 86400000)) all_f [] exampleStore)) =
     [38, 8, 10, 17, 19, 26, 28, 35, 37]"
proof -
  have run: "calendarItems_h P0 (clockAt (19877 * 86400000)) all_f [] exampleStore =
      (fst (calendarItems_h P0 (clockAt (19877 * 86400000)) all_f [] exampleStore),
       snd (calendarItems_h P0 (clockAt (19877 * 86400000)) all_f [] exampleStore))"
    by simp
  have dates: "st_dates exampleStore = [Some 0]"
    by (simp add: exampleStore_def)
  have addrs: "map i_date (fst (calendarItems_h P0 (clockAt (19877 * 86400000)) all_f [] exampleStore)) =
      [38, 8, 10, 17, 19, 26, 28, 35, 37]"
    by code_simp
  from projection_leaves_inputs [OF run] dates addrs show ?thesis
    by simp
qed

end
